(* ===== verification/Prelude.thy ===== *)
theory Prelude
  imports Main "HOL-Library.Word" "HOL-Library.AList" "HOL-Library.Sublist"
begin

text \<open>
  Types, automation and generic lemmas shared by every component.

  Go strings and byte slices are byte sequences: \<open>byte\<close> is an 8-bit word, \<open>bytes\<close> a list of
  them, and Go's conversions between \<^verbatim>\<open>string\<close> and \<^verbatim>\<open>[]byte\<close> are \<open>str_bytes\<close> and \<open>bytes_str\<close>.
  Go's \<^verbatim>\<open>int\<close> is 64 bits wide and is modelled by \<open>int\<close>, with \<open>wrap64\<close> written where an
  operation can leave the range. A Go \<^verbatim>\<open>map\<close> is an association list (\<open>AList.update\<close>,
  \<open>AList.delete\<close>, \<open>map_of\<close>), whose order stands for the unspecified iteration order.
  Points in time and durations are nanoseconds, of type \<open>int\<close>.
\<close>

type_synonym byte = "8 word"
type_synonym bytes = "byte list"
type_synonym ('k, 'v) gomap = "('k \<times> 'v) list"

named_theorems model_defs "definitions of the model unfolded by the component proofs"

subsection \<open>Strings as byte sequences\<close>

definition byte_of :: "char \<Rightarrow> byte" where
  "byte_of c = of_nat (of_char c)"

definition char_of_byte :: "byte \<Rightarrow> char" where
  "char_of_byte b = char_of (unat b)"

definition str_bytes :: "string \<Rightarrow> bytes" where
  "str_bytes s = map byte_of s"

definition bytes_str :: "bytes \<Rightarrow> string" where
  "bytes_str bs = map char_of_byte bs"

lemma unat_byte_less [simp]: "unat (b :: byte) < 256"
  using unsigned_less [of b] by simp

lemma char_of_byte_of [simp]: "char_of_byte (byte_of c) = c"
  by (simp add: char_of_byte_def byte_of_def unat_of_nat)

lemma byte_of_char_of_byte [simp]: "byte_of (char_of_byte b) = b"
proof -
  have "unat b mod 256 = unat b" by (rule mod_less) simp
  then show ?thesis by (simp add: char_of_byte_def byte_of_def)
qed

lemma byte_of_eq_iff [simp]: "byte_of c = byte_of d \<longleftrightarrow> c = d"
  by (metis char_of_byte_of)

lemma bytes_str_str_bytes [simp]: "bytes_str (str_bytes s) = s"
  by (simp add: bytes_str_def str_bytes_def comp_def)

lemma str_bytes_bytes_str [simp]: "str_bytes (bytes_str bs) = bs"
  by (simp add: bytes_str_def str_bytes_def comp_def)

lemma str_bytes_inject [simp]: "str_bytes s = str_bytes t \<longleftrightarrow> s = t"
  by (metis bytes_str_str_bytes)

lemma length_str_bytes [simp]: "length (str_bytes s) = length s"
  by (simp add: str_bytes_def)

lemma length_bytes_str [simp]: "length (bytes_str bs) = length bs"
  by (simp add: bytes_str_def)

lemma str_bytes_Nil [simp]: "str_bytes [] = []"
  by (simp add: str_bytes_def)

lemma str_bytes_eq_Nil [simp]: "str_bytes s = [] \<longleftrightarrow> s = []"
  by (simp add: str_bytes_def)

lemma bytes_str_eq_Nil [simp]: "bytes_str bs = [] \<longleftrightarrow> bs = []"
  by (simp add: bytes_str_def)

lemma str_bytes_append [simp]: "str_bytes (s @ t) = str_bytes s @ str_bytes t"
  by (simp add: str_bytes_def)

lemma bytes_str_append [simp]: "bytes_str (s @ t) = bytes_str s @ bytes_str t"
  by (simp add: bytes_str_def)

subsection \<open>Integers of a fixed width\<close>

definition max_int64 :: int where
  "max_int64 = 9223372036854775807"

definition min_int64 :: int where
  "min_int64 = -9223372036854775808"

definition wrap64 :: "int \<Rightarrow> int" where
  "wrap64 i = (i + 9223372036854775808) mod 18446744073709551616 - 9223372036854775808"

lemma wrap64_id: "min_int64 \<le> i \<Longrightarrow> i \<le> max_int64 \<Longrightarrow> wrap64 i = i"
  by (simp add: wrap64_def min_int64_def max_int64_def)

lemma wrap64_range: "min_int64 \<le> wrap64 i \<and> wrap64 i \<le> max_int64"
proof -
  have "0 \<le> (i + 9223372036854775808) mod 18446744073709551616"
    and "(i + 9223372036854775808) mod 18446744073709551616 < 18446744073709551616"
    by simp_all
  then show ?thesis by (simp add: wrap64_def min_int64_def max_int64_def)
qed

subsection \<open>Go maps as association lists\<close>

lemma map_of_update [simp]: "map_of (AList.update k v m) = (map_of m)(k \<mapsto> v)"
  by (rule update_conv')

lemma map_of_delete [simp]: "map_of (AList.delete k m) = (map_of m)(k := None)"
  by (rule delete_conv')

lemma distinct_keys_update [simp]:
  "distinct (map fst m) \<Longrightarrow> distinct (map fst (AList.update k v m))"
  by (rule distinct_update)

lemma distinct_keys_delete [simp]:
  "distinct (map fst m) \<Longrightarrow> distinct (map fst (AList.delete k m))"
  by (rule distinct_delete)

subsection \<open>Lists\<close>

lemma filter_eq_if_all: "(\<And>x. x \<in> set xs \<Longrightarrow> P x) \<Longrightarrow> filter P xs = xs"
  by (induction xs) auto

lemma set_remove1_subset': "x \<in> set (remove1 y xs) \<Longrightarrow> x \<in> set xs"
  by (meson in_mono set_remove1_subset)

lemma mod_diff_dvd: "d dvd n \<Longrightarrow> n \<le> j \<Longrightarrow> (j - n) mod d = (j :: nat) mod d"
  using mod_eq_dvd_iff_nat [of "j - n" j d] by simp

lemma mod_add_neq: "n mod d \<noteq> 0 \<Longrightarrow> j mod d \<noteq> (n + j) mod (d :: nat)"
  using mod_eq_dvd_iff_nat [of j "n + j" d] by (auto simp: dvd_eq_mod_eq_0)

lemma nth_append_singleton:
  "(xs @ [x]) ! i = (if i < length xs then xs ! i else [x] ! (i - length xs))"
  by (simp add: nth_append)

subsection \<open>Runs, simulations and invariants\<close>

text \<open>
  A component that reacts to events is a step function from an event and a state to an output and
  the next state; \<open>run_out\<close> and \<open>run_state\<close> are a run's outputs and its final state.
  \<open>enabled\<close> says which events a specification allows in which of its states, and \<open>allowed_run\<close>
  that every event of a run is.
\<close>

fun run_out :: "('e \<Rightarrow> 's \<Rightarrow> 'o \<times> 's) \<Rightarrow> 'e list \<Rightarrow> 's \<Rightarrow> 'o list" where
  "run_out st [] s = []"
| "run_out st (e # es) s = fst (st e s) # run_out st es (snd (st e s))"

fun run_state :: "('e \<Rightarrow> 's \<Rightarrow> 'o \<times> 's) \<Rightarrow> 'e list \<Rightarrow> 's \<Rightarrow> 's" where
  "run_state st [] s = s"
| "run_state st (e # es) s = run_state st es (snd (st e s))"

fun allowed_run :: "('e \<Rightarrow> 'a \<Rightarrow> bool) \<Rightarrow> ('e \<Rightarrow> 'a \<Rightarrow> 'o \<times> 'a) \<Rightarrow> 'e list \<Rightarrow> 'a \<Rightarrow> bool" where
  "allowed_run en st [] a = True"
| "allowed_run en st (e # es) a \<longleftrightarrow> en e a \<and> allowed_run en st es (snd (st e a))"

lemma run_state_append: "run_state st (es @ fs) s = run_state st fs (run_state st es s)"
  by (induction es arbitrary: s) auto

text \<open>A forward simulation: the outputs of the code's run are those of the specification's.\<close>

locale simulation =
  fixes cstep :: "'e \<Rightarrow> 's \<Rightarrow> 'o \<times> 's"
    and astep :: "'e \<Rightarrow> 'a \<Rightarrow> 'o \<times> 'a"
    and rel :: "'s \<Rightarrow> 'a \<Rightarrow> bool"
    and enabled :: "'e \<Rightarrow> 'a \<Rightarrow> bool"
  assumes sim_out: "rel s a \<Longrightarrow> enabled e a \<Longrightarrow> fst (cstep e s) = fst (astep e a)"
    and sim_rel: "rel s a \<Longrightarrow> enabled e a \<Longrightarrow> rel (snd (cstep e s)) (snd (astep e a))"
begin

lemma run_refines:
  "rel s a \<Longrightarrow> allowed_run enabled astep es a \<Longrightarrow> run_out cstep es s = run_out astep es a"
  by (induction es arbitrary: s a) (auto simp: sim_out sim_rel)

lemma run_related:
  "rel s a \<Longrightarrow> allowed_run enabled astep es a \<Longrightarrow> rel (run_state cstep es s) (run_state astep es a)"
  by (induction es arbitrary: s a) (auto simp: sim_rel)

end

text \<open>An inductive invariant of a step relation.\<close>

locale step_invariant =
  fixes step :: "'s \<Rightarrow> 's \<Rightarrow> bool"
    and inv :: "'s \<Rightarrow> bool"
  assumes preserved: "step s t \<Longrightarrow> inv s \<Longrightarrow> inv t"
begin

lemma reachable: "step\<^sup>*\<^sup>* s t \<Longrightarrow> inv s \<Longrightarrow> inv t"
  by (induction rule: rtranclp_induct) (auto intro: preserved)

end

text \<open>
  An invariant with a rank that every step lowers: the length of a run is bounded, and some run
  leads to a state from which no step is possible.
\<close>

locale ranking = step_invariant +
  fixes rank :: "'a \<Rightarrow> nat"
  assumes lowers: "step s t \<Longrightarrow> inv s \<Longrightarrow> rank t < rank s"
begin

lemma bounded_run: "(step ^^ n) s t \<Longrightarrow> inv s \<Longrightarrow> inv t \<and> n + rank t \<le> rank s"
proof (induction n arbitrary: t)
  case (Suc n)
  then obtain u where u: "(step ^^ n) s u" "step u t" by auto
  with Suc show ?case using lowers [of u t] preserved [of u t] by fastforce
qed simp

lemma reaches_rest: "inv s \<Longrightarrow> \<exists>t. step\<^sup>*\<^sup>* s t \<and> inv t \<and> (\<forall>u. \<not> step t u)"
proof (induction "rank s" arbitrary: s rule: less_induct)
  case less
  show ?case
  proof (cases "\<exists>u. step s u")
    case True
    then obtain u where u: "step s u" by blast
    from less.hyps [OF lowers [OF u less.prems] preserved [OF u less.prems]]
    show ?thesis using u by (meson converse_rtranclp_into_rtranclp)
  qed (use less.prems in blast)
qed

end

end
