(* ===== verification/Rate_Limiter.thy ===== *)
theory Rate_Limiter
  imports Prelude
begin

text \<open>
  The per-address rate limiter of \<^verbatim>\<open>pkg/server/server.go\<close>: \<open>Allow\<close>, one tick of \<open>cleanup\<close>, and the
  sliding-window specification they implement. Each method holds the limiter's mutex for its
  whole body, so a run is a sequence of calls. The clock is an argument; \<^verbatim>\<open>time.Now\<close> carries a
  monotonic reading, so the times of a run do not decrease.
\<close>

record RateLimiter =
  attempts :: "(string, int list) gomap"
  limit :: int
  window :: int

definition NewRateLimiter :: "int \<Rightarrow> int \<Rightarrow> RateLimiter" where
  "NewRateLimiter lim win = \<lparr>attempts = [], limit = lim, window = win\<rparr>"

text \<open>Indexing a missing key of the map gives the nil slice.\<close>

definition attempts_of :: "RateLimiter \<Rightarrow> string \<Rightarrow> int list" where
  "attempts_of rl ip = (case map_of (attempts rl) ip of None \<Rightarrow> [] | Some ts \<Rightarrow> ts)"

definition Allow :: "string \<Rightarrow> int \<Rightarrow> RateLimiter \<Rightarrow> bool \<times> RateLimiter" where
  "Allow ip now rl =
     (let cutoff = now - window rl;
          valid = filter (\<lambda>t. cutoff < t) (attempts_of rl ip)
      in if limit rl \<le> int (length valid)
         then (False, rl\<lparr>attempts := AList.update ip valid (attempts rl)\<rparr>)
         else (True, rl\<lparr>attempts := AList.update ip (valid @ [now]) (attempts rl)\<rparr>))"

definition cleanup_entry ::
    "int \<Rightarrow> string \<times> int list \<Rightarrow> (string, int list) gomap \<Rightarrow> (string, int list) gomap" where
  "cleanup_entry cutoff entry m =
     (let (ip, times) = entry; valid = filter (\<lambda>t. cutoff < t) times
      in if length valid = 0 then AList.delete ip m else AList.update ip valid m)"

definition cleanup :: "int \<Rightarrow> RateLimiter \<Rightarrow> RateLimiter" where
  "cleanup now rl =
     (let cutoff = now - window rl
      in rl\<lparr>attempts := fold (cleanup_entry cutoff) (attempts rl) (attempts rl)\<rparr>)"

subsection \<open>A run of the limiter\<close>

datatype rl_event = Call string | Tick

fun rl_step :: "int \<times> rl_event \<Rightarrow> RateLimiter \<Rightarrow> bool option \<times> RateLimiter" where
  "rl_step (now, Call ip) rl = (case Allow ip now rl of (ok, rl') \<Rightarrow> (Some ok, rl'))"
| "rl_step (now, Tick) rl = (None, cleanup now rl)"

lemma rl_event_cases [case_names Call Tick]:
  assumes "\<And>now ip. e = (now, Call ip) \<Longrightarrow> P" and "\<And>now. e = (now, Tick) \<Longrightarrow> P"
  shows P
  using assms by (cases e; cases "snd e") auto

text \<open>
  The specification keeps every admitted call for ever, and admits a call exactly when fewer than
  the limit were admitted for the same address in the window that ends now.
\<close>

record sliding_log =
  admitted :: "(string \<times> int) list"
  clock :: int

definition recent :: "(string \<times> int) list \<Rightarrow> string \<Rightarrow> int \<Rightarrow> int list" where
  "recent log ip cutoff = filter (\<lambda>t. cutoff < t) (map snd (filter (\<lambda>(i, t). i = ip) log))"

fun spec_step ::
    "int \<Rightarrow> int \<Rightarrow> int \<times> rl_event \<Rightarrow> sliding_log \<Rightarrow> bool option \<times> sliding_log" where
  "spec_step lim win (now, Call ip) a =
     (if int (length (recent (admitted a) ip (now - win))) < lim
      then (Some True, a\<lparr>admitted := admitted a @ [(ip, now)], clock := now\<rparr>)
      else (Some False, a\<lparr>clock := now\<rparr>))"
| "spec_step lim win (now, Tick) a = (None, a\<lparr>clock := now\<rparr>)"

definition not_before :: "int \<times> rl_event \<Rightarrow> sliding_log \<Rightarrow> bool" where
  "not_before e a \<longleftrightarrow> clock a \<le> fst e"

lemma allowed_sorted:
  "allowed_run not_before (spec_step lim win) es a
     \<longleftrightarrow> sorted (map fst es) \<and> (\<forall>e\<in>set es. clock a \<le> fst e)"
proof (induction es arbitrary: a)
  case (Cons e es)
  obtain now ev where e: "e = (now, ev)" by (cases e)
  then have "clock (snd (spec_step lim win e a)) = now" by (cases ev) auto
  with Cons e show ?case by (auto simp: not_before_def)
qed simp

subsection \<open>What the operations do to one address\<close>

lemma attempts_of_Allow:
  "attempts_of (snd (Allow ip now rl)) i =
     (if i = ip then filter (\<lambda>t. now - window rl < t) (attempts_of rl ip)
        @ (if fst (Allow ip now rl) then [now] else [])
      else attempts_of rl i)"
  by (simp add: Allow_def attempts_of_def Let_def)

lemma Allow_frame [simp]:
  "limit (snd (Allow ip now rl)) = limit rl" "window (snd (Allow ip now rl)) = window rl"
  by (simp_all add: Allow_def Let_def)

lemma Allow_iff:
  "fst (Allow ip now rl)
     \<longleftrightarrow> int (length (filter (\<lambda>t. now - window rl < t) (attempts_of rl ip))) < limit rl"
  by (auto simp: Allow_def Let_def)

lemma cleanup_fold_other:
  "ip \<notin> fst ` set es \<Longrightarrow> map_of (fold (cleanup_entry c) es m) ip = map_of m ip"
  by (induction es arbitrary: m) (auto simp: cleanup_entry_def Let_def)

lemma cleanup_entry_lookup:
  "map_of (cleanup_entry c (k, ts) m) ip =
     (if ip = k then (if filter (\<lambda>t. c < t) ts = [] then None else Some (filter (\<lambda>t. c < t) ts))
      else map_of m ip)"
  by (simp add: cleanup_entry_def Let_def)

lemma cleanup_fold:
  "distinct (map fst es) \<Longrightarrow> map_of (fold (cleanup_entry c) es m) ip =
     (case map_of es ip of
        None \<Rightarrow> map_of m ip
      | Some ts \<Rightarrow> if filter (\<lambda>t. c < t) ts = [] then None else Some (filter (\<lambda>t. c < t) ts))"
proof (induction es arbitrary: m)
  case (Cons e es)
  obtain k ts where e: "e = (k, ts)" by (cases e)
  show ?case
  proof (cases "ip = k")
    case True
    with Cons.prems e have "ip \<notin> fst ` set es" by auto
    with True e show ?thesis by (simp add: cleanup_fold_other cleanup_entry_lookup)
  next
    case False
    with Cons e show ?thesis by (auto simp: cleanup_entry_lookup split: option.split)
  qed
qed simp

definition keys_distinct :: "RateLimiter \<Rightarrow> bool" where
  "keys_distinct rl \<longleftrightarrow> distinct (map fst (attempts rl))"

lemma distinct_cleanup_fold:
  "distinct (map fst m) \<Longrightarrow> distinct (map fst (fold (cleanup_entry c) es m))"
proof (induction es arbitrary: m)
  case (Cons e es)
  then show ?case by (cases e) (simp add: cleanup_entry_def Let_def)
qed simp

lemma keys_distinct_step [simp]: "keys_distinct rl \<Longrightarrow> keys_distinct (snd (rl_step e rl))"
  by (cases e rule: rl_event_cases)
    (auto simp: keys_distinct_def Allow_def cleanup_def Let_def distinct_cleanup_fold
      split: prod.splits if_splits)

lemma attempts_of_cleanup:
  assumes "keys_distinct rl"
  shows "attempts_of (cleanup now rl) i = filter (\<lambda>t. now - window rl < t) (attempts_of rl i)"
  using assms cleanup_fold [of "attempts rl" "now - window rl" "attempts rl" i]
  by (auto simp: attempts_of_def cleanup_def keys_distinct_def Let_def split: option.splits)

lemma cleanup_frame [simp]:
  "limit (cleanup now rl) = limit rl" "window (cleanup now rl) = window rl"
  by (simp_all add: cleanup_def Let_def)

lemma rl_step_frame [simp]:
  "limit (snd (rl_step e rl)) = limit rl" "window (snd (rl_step e rl)) = window rl"
  by (cases e rule: rl_event_cases; simp split: prod.splits; metis Allow_frame snd_conv)+

subsection \<open>The simulation\<close>

text \<open>
  The limiter forgets only calls that are outside every later window: for any cut-off from now on
  it holds the same recent times as the specification's log.
\<close>

definition limiter_rel :: "int \<Rightarrow> int \<Rightarrow> RateLimiter \<Rightarrow> sliding_log \<Rightarrow> bool" where
  "limiter_rel lim win rl a \<longleftrightarrow> keys_distinct rl \<and> limit rl = lim \<and> window rl = win
     \<and> (\<forall>ip c. clock a - win \<le> c \<longrightarrow>
          filter (\<lambda>t. c < t) (attempts_of rl ip) = recent (admitted a) ip c)"

lemma recent_append [simp]:
  "recent (log @ [(i, t)]) ip c = recent log ip c @ (if i = ip \<and> c < t then [t] else [])"
  by (simp add: recent_def)

lemma filter_cutoff_twice:
  "c \<le> d \<Longrightarrow> filter (\<lambda>t. c < t \<and> d < t) ts = filter (\<lambda>t. d < (t :: int)) ts"
  by (induction ts) auto

lemma recent_recent: "c \<le> d \<Longrightarrow> filter (\<lambda>t. d < t) (recent log ip c) = recent log ip d"
  by (simp add: recent_def filter_cutoff_twice)

lemma limiter_rel_out:
  assumes "limiter_rel lim win rl a" and "not_before e a"
  shows "fst (rl_step e rl) = fst (spec_step lim win e a)"
proof (cases e rule: rl_event_cases)
  case (Call now ip)
  with assms show ?thesis
    using Allow_iff [of ip now rl]
    by (cases "Allow ip now rl") (auto simp: limiter_rel_def not_before_def)
next
  case (Tick now)
  then show ?thesis by simp
qed

lemma limiter_rel_step:
  assumes r: "limiter_rel lim win rl a" and "not_before e a"
  shows "limiter_rel lim win (snd (rl_step e rl)) (snd (spec_step lim win e a))"
proof -
  have kd: "keys_distinct (snd (rl_step e rl))" using r by (simp add: limiter_rel_def)
  show ?thesis
  proof (cases e rule: rl_event_cases)
    case (Call now ip)
    have nb: "clock a \<le> now" using assms(2) Call by (simp add: not_before_def)
    have st: "snd (rl_step e rl) = snd (Allow ip now rl)" using Call by (auto split: prod.splits)
    have ok: "fst (Allow ip now rl)
        \<longleftrightarrow> int (length (recent (admitted a) ip (now - win))) < lim"
      using r nb by (simp add: Allow_iff limiter_rel_def)
    have "filter (\<lambda>t. c < t) (attempts_of (snd (Allow ip now rl)) i) =
        recent (admitted (snd (spec_step lim win e a))) i c" if "now - win \<le> c" for i c
    proof -
      have "filter (\<lambda>t. c < t) (attempts_of rl i) = recent (admitted a) i c"
        using r nb that by (simp add: limiter_rel_def)
      then show ?thesis
        using r that ok Call by (auto simp: attempts_of_Allow limiter_rel_def filter_cutoff_twice)
    qed
    moreover have "clock (snd (spec_step lim win e a)) = now" using Call by auto
    ultimately show ?thesis using kd r st by (simp add: limiter_rel_def)
  next
    case (Tick now)
    have nb: "clock a \<le> now" using assms(2) Tick by (simp add: not_before_def)
    have "filter (\<lambda>t. c < t) (attempts_of (cleanup now rl) i) = recent (admitted a) i c"
      if "now - win \<le> c" for i c
      using r nb that by (auto simp: limiter_rel_def attempts_of_cleanup filter_cutoff_twice recent_recent)
    then show ?thesis using kd r Tick by (simp add: limiter_rel_def)
  qed
qed

interpretation limiter: simulation rl_step "spec_step lim win" "limiter_rel lim win" not_before
  for lim win
  by unfold_locales (auto intro: limiter_rel_out limiter_rel_step)

subsection \<open>The bound\<close>

definition log_ok :: "int \<Rightarrow> int \<Rightarrow> sliding_log \<Rightarrow> bool" where
  "log_ok lim win a \<longleftrightarrow> (\<forall>(i, t)\<in>set (admitted a). t \<le> clock a)
     \<and> (\<forall>ip T. int (length (filter (\<lambda>t. t \<le> T) (recent (admitted a) ip (T - win)))) \<le> max 0 lim)"

lemma length_recent_antimono: "c \<le> d \<Longrightarrow> length (recent log ip d) \<le> length (recent log ip c)"
  by (simp flip: recent_recent)

lemma log_ok_step:
  assumes ok: "log_ok lim win a" and nb: "not_before e a"
  shows "log_ok lim win (snd (spec_step lim win e a))"
proof (cases e rule: rl_event_cases)
  case (Call now ip)
  have old: "\<forall>(i, t)\<in>set (admitted a). t \<le> now"
    using ok nb Call by (fastforce simp: log_ok_def not_before_def)
  show ?thesis
  proof (cases "int (length (recent (admitted a) ip (now - win))) < lim")
    case False
    then show ?thesis using ok old Call by (simp add: log_ok_def)
  next
    case True
    have "int (length (filter (\<lambda>t. t \<le> T) (recent (admitted a @ [(ip, now)]) i (T - win)))) \<le> max 0 lim"
      for i T
    proof (cases "i = ip \<and> T - win < now \<and> now \<le> T")
      case False
      then show ?thesis using ok by (auto simp: log_ok_def)
    next
      case in_window: True
      have "length (filter (\<lambda>t. t \<le> T) (recent (admitted a) i (T - win)))
          \<le> length (recent (admitted a) i (now - win))"
        using in_window by (intro order_trans [OF length_filter_le] length_recent_antimono) simp
      then show ?thesis using True in_window by simp
    qed
    then show ?thesis using True old Call by (simp add: log_ok_def)
  qed
next
  case (Tick now)
  then show ?thesis using ok nb by (fastforce simp: log_ok_def not_before_def)
qed

lemma log_ok_run:
  "log_ok lim win a \<Longrightarrow> allowed_run not_before (spec_step lim win) es a
     \<Longrightarrow> log_ok lim win (run_state (spec_step lim win) es a)"
  by (induction es arbitrary: a) (auto intro: log_ok_step)

definition admissions :: "string \<Rightarrow> (int \<times> rl_event) list \<Rightarrow> bool option list \<Rightarrow> int list" where
  "admissions ip es outs =
     map (\<lambda>(e, out). fst e) (filter (\<lambda>(e, out). snd e = Call ip \<and> out = Some True) (zip es outs))"

lemma recent_spec_run:
  "recent (admitted (run_state (spec_step lim win) es a)) ip c
     = recent (admitted a) ip c
       @ filter (\<lambda>t. c < t) (admissions ip es (run_out (spec_step lim win) es a))"
proof (induction es arbitrary: a)
  case (Cons e es)
  show ?case
    by (cases e rule: rl_event_cases) (simp_all add: Cons.IH admissions_def)
qed (simp add: admissions_def)

subsection \<open>Properties\<close>

lemma limiter_refines_window_eq:
  assumes "sorted (t0 # map fst es)"
  shows "run_out rl_step es (NewRateLimiter lim win)
       = run_out (spec_step lim win) es \<lparr>admitted = [], clock = t0\<rparr>"
proof (rule limiter.run_refines)
  show "limiter_rel lim win (NewRateLimiter lim win) \<lparr>admitted = [], clock = t0\<rparr>"
    by (simp add: limiter_rel_def NewRateLimiter_def keys_distinct_def attempts_of_def recent_def)
  show "allowed_run not_before (spec_step lim win) es \<lparr>admitted = [], clock = t0\<rparr>"
    using assms by (simp add: allowed_sorted)
qed

text \<open>
  C8. The limiter, which prunes a slice per call and the whole map on every tick, decides every
  call of every run exactly as the specification that remembers all admissions: a call is allowed
  if and only if fewer than \<open>limit\<close> calls of the same address were allowed in the window before
  it, whatever other addresses and the cleanup do in between.
\<close>

theorem limiter_refines_sliding_window:
  assumes "sorted (t0 # map fst es)"
  shows "run_out rl_step es (NewRateLimiter lim win)
       = run_out (spec_step lim win) es \<lparr>admitted = [], clock = t0\<rparr>"
  by (rule limiter_refines_window_eq [OF assms])

lemma limiter_refines_sliding_window_witness:
  "run_out rl_step [(0, Call ''a''), (1, Call ''a''), (3, Tick), (12, Call ''a'')] (NewRateLimiter 1 10)
     = [Some True, Some False, None, Some True]"
  by (subst limiter_refines_sliding_window [of 0]) (simp_all add: recent_def)

text \<open>
  Rate limiting: in any run, for any address and any instant \<open>T\<close>, at most \<open>limit\<close> calls of
  that address are allowed in the window of length \<open>window\<close> that ends at \<open>T\<close>.
\<close>

theorem limiter_bounds_every_window:
  assumes "sorted (map fst es)"
  shows "int (length (filter (\<lambda>t. T - win < t \<and> t \<le> T)
      (admissions ip es (run_out rl_step es (NewRateLimiter lim win))))) \<le> max 0 lim"
proof -
  define t0 where "t0 = (case es of [] \<Rightarrow> 0 | e # _ \<Rightarrow> fst e)"
  define a where "a = \<lparr>admitted = [], clock = t0\<rparr>"
  have srt: "sorted (t0 # map fst es)" using assms by (cases es) (auto simp: t0_def)
  have "log_ok lim win a" by (simp add: log_ok_def a_def recent_def)
  moreover have "allowed_run not_before (spec_step lim win) es a"
    using srt by (simp add: allowed_sorted a_def)
  ultimately have "log_ok lim win (run_state (spec_step lim win) es a)"
    by (rule log_ok_run)
  then have "int (length (filter (\<lambda>t. t \<le> T)
      (recent (admitted (run_state (spec_step lim win) es a)) ip (T - win)))) \<le> max 0 lim"
    by (simp add: log_ok_def)
  then show ?thesis
    unfolding limiter_refines_window_eq [OF srt] recent_spec_run
    by (simp add: a_def recent_def conj_commute)
qed

lemma limiter_bounds_every_window_witness:
  "int (length (filter (\<lambda>t. 60 - 60 < t \<and> t \<le> 60)
      (admissions ''a'' [(1, Call ''a''), (2, Call ''a'')]
         (run_out rl_step [(1, Call ''a''), (2, Call ''a'')] (NewRateLimiter 1 60))))) \<le> max 0 1"
  by (rule limiter_bounds_every_window) simp

lemma admissions_Cons [simp]:
  "admissions ip (e # es) (out # outs) =
     (if snd e = Call ip \<and> out = Some True then [fst e] else []) @ admissions ip es outs"
  by (simp add: admissions_def)

lemma admissions_Nil [simp]: "admissions ip [] outs = []"
  by (simp add: admissions_def)

lemma spec_isolated:
  "filter (\<lambda>(i, t). i = ip) (admitted a) = filter (\<lambda>(i, t). i = ip) (admitted b) \<Longrightarrow>
     admissions ip es (run_out (spec_step lim win) es a)
       = admissions ip (filter (\<lambda>e. snd e = Call ip) es)
           (run_out (spec_step lim win) (filter (\<lambda>e. snd e = Call ip) es) b)"
proof (induction es arbitrary: a b)
  case (Cons e es)
  have same: "recent (admitted a) ip c = recent (admitted b) ip c" for c
    using Cons.prems by (simp add: recent_def)
  let ?a = "snd (spec_step lim win e a)" and ?b = "snd (spec_step lim win e b)"
  show ?case
  proof (cases "snd e = Call ip")
    case True
    then obtain now where e: "e = (now, Call ip)" by (cases e) auto
    have "filter (\<lambda>(i, t). i = ip) (admitted ?a) = filter (\<lambda>(i, t). i = ip) (admitted ?b)"
      using Cons.prems by (simp add: e same)
    from Cons.IH [OF this] show ?thesis by (simp add: e same)
  next
    case False
    have "filter (\<lambda>(i, t). i = ip) (admitted ?a) = filter (\<lambda>(i, t). i = ip) (admitted b)"
      using Cons.prems False by (cases e rule: rl_event_cases) auto
    from Cons.IH [OF this] False show ?thesis by simp
  qed
qed simp

text \<open>
  Isolation: the calls of one address that are allowed are those that would be allowed if no
  other address ever called and the cleanup never ran. One address cannot use up another's quota.
\<close>

theorem limiter_isolates_addresses:
  assumes "sorted (map fst es)"
  shows "admissions ip es (run_out rl_step es (NewRateLimiter lim win))
       = admissions ip (filter (\<lambda>e. snd e = Call ip) es)
           (run_out rl_step (filter (\<lambda>e. snd e = Call ip) es) (NewRateLimiter lim win))"
proof -
  define t0 where "t0 = (case es of [] \<Rightarrow> 0 | e # _ \<Rightarrow> fst e)"
  have "sorted (t0 # map fst es)" using assms by (cases es) (auto simp: t0_def)
  note all = limiter_refines_window_eq [OF this]
  have "sorted (t0 # map fst (filter (\<lambda>e. snd e = Call ip) es))"
    using \<open>sorted (t0 # map fst es)\<close> by (auto simp: sorted_filter)
  note own = limiter_refines_window_eq [OF this]
  show ?thesis unfolding all own by (rule spec_isolated) simp
qed

lemma limiter_isolates_addresses_witness:
  "admissions ''a'' [(0, Call ''b''), (1, Call ''a''), (2, Tick)]
      (run_out rl_step [(0, Call ''b''), (1, Call ''a''), (2, Tick)] (NewRateLimiter 1 10)) = [1]"
  by (subst limiter_isolates_addresses)
    (simp_all add: Allow_def NewRateLimiter_def attempts_of_def)

definition bounded_attempts :: "RateLimiter \<Rightarrow> bool" where
  "bounded_attempts rl \<longleftrightarrow> keys_distinct rl
     \<and> (\<forall>ip. int (length (attempts_of rl ip)) \<le> max 0 (limit rl))"

lemma length_filter_bound: "int (length xs) \<le> b \<Longrightarrow> int (length (filter P xs)) \<le> b"
  by (rule order_trans [OF _ ]) (simp_all add: length_filter_le)

lemma bounded_attempts_step: "bounded_attempts rl \<Longrightarrow> bounded_attempts (snd (rl_step e rl))"
proof (cases e rule: rl_event_cases)
  case (Call now ip)
  assume b: "bounded_attempts rl"
  have "snd (rl_step e rl) = snd (Allow ip now rl)" using Call by (auto split: prod.splits)
  moreover have "int (length (attempts_of (snd (Allow ip now rl)) i)) \<le> max 0 (limit rl)" for i
    using b Allow_iff [of ip now rl]
    by (auto simp: attempts_of_Allow bounded_attempts_def intro!: length_filter_bound)
  ultimately show ?thesis
    using b keys_distinct_step [of rl e] by (simp add: bounded_attempts_def)
next
  case (Tick now)
  assume "bounded_attempts rl"
  then show ?thesis
    using Tick keys_distinct_step [of rl e]
    by (auto simp: bounded_attempts_def attempts_of_cleanup intro!: length_filter_bound)
qed

lemma bounded_attempts_run:
  "bounded_attempts rl \<Longrightarrow> bounded_attempts (run_state rl_step es rl)"
  by (induction es arbitrary: rl) (auto intro: bounded_attempts_step)

lemma new_rate_limiter [simp]:
  "limit (NewRateLimiter lim win) = lim" "window (NewRateLimiter lim win) = win"
  "bounded_attempts (NewRateLimiter lim win)"
  by (simp_all add: NewRateLimiter_def bounded_attempts_def keys_distinct_def attempts_of_def)

lemma run_state_frame [simp]:
  "limit (run_state rl_step es rl) = limit rl" "window (run_state rl_step es rl) = window rl"
  by (induction es arbitrary: rl) auto

text \<open>
  Memory: after any run no address has more than \<open>limit\<close> times stored, and after a tick of the
  cleanup every address still in the map has at least one time, all of them inside the window.
\<close>

theorem limiter_memory_bounded:
  fixes es :: "(int \<times> rl_event) list" and lim win now :: int and ip :: string
  defines "s \<equiv> run_state rl_step es (NewRateLimiter lim win)"
  shows "int (length (attempts_of s ip)) \<le> max 0 lim
    \<and> list_all (\<lambda>(i, ts). ts \<noteq> [] \<and> list_all (\<lambda>t. now - win < t) ts) (attempts (cleanup now s))"
proof -
  have b: "bounded_attempts s" and s: "limit s = lim" "window s = win"
    unfolding s_def by (simp_all add: bounded_attempts_run)
  let ?m = "attempts (cleanup now s)"
  have d: "distinct (map fst ?m)"
    using b distinct_cleanup_fold
    by (simp add: bounded_attempts_def keys_distinct_def cleanup_def Let_def)
  have "ts \<noteq> [] \<and> list_all (\<lambda>t. now - win < t) ts" if "(i, ts) \<in> set ?m" for i ts
  proof -
    have "map_of ?m i = Some ts" using d that by simp
    then show ?thesis
      using b s cleanup_fold [of "attempts s" "now - win" "attempts s" i]
      by (auto simp: cleanup_def Let_def bounded_attempts_def keys_distinct_def list_all_iff
          split: option.splits if_splits)
  qed
  then show ?thesis using b s by (auto simp: bounded_attempts_def list_all_iff)
qed

end
