(* ===== verification/Conn.thy ===== *)
theory Conn
  imports Prelude
begin

text \<open>
  A network connection as the program sees it (\<^verbatim>\<open>net.Conn\<close>, and a yamux stream, which is one).

  What the peer and the network will deliver is a list of events, one per call of \<^verbatim>\<open>Read\<close> with a
  buffer that is large enough: \<open>Seg bs\<close> returns \<open>bs\<close> and no error, \<open>SegErr bs\<close> returns \<open>bs\<close>
  together with an error (end of stream, an expired deadline, a reset); when the list is empty
  every \<^verbatim>\<open>Read\<close> returns an error. A buffer that is too small takes a prefix and leaves the rest.
  How the bytes are cut into events is arbitrary, as it is for a stream. \<open>tx\<close> lists the
  arguments of the \<^verbatim>\<open>Write\<close> calls that succeeded and \<open>wleft\<close> is the number of calls that will
  still succeed. Deadlines are not a part of the state: one that expires is a \<open>SegErr []\<close>.
\<close>

datatype rx_event = Seg bytes | SegErr bytes

record conn =
  rx :: "rx_event list"
  tx :: "bytes list"
  wleft :: nat
  closed :: bool

definition new_conn :: "rx_event list \<Rightarrow> nat \<Rightarrow> conn" where
  "new_conn evs n = \<lparr>rx = evs, tx = [], wleft = n, closed = False\<rparr>"

fun is_seg :: "rx_event \<Rightarrow> bool" where
  "is_seg (Seg _) = True"
| "is_seg (SegErr _) = False"

fun ev_bytes :: "rx_event \<Rightarrow> bytes" where
  "ev_bytes (Seg bs) = bs"
| "ev_bytes (SegErr bs) = bs"

abbreviation clean :: "rx_event list \<Rightarrow> bool" where
  "clean evs \<equiv> list_all is_seg evs"

abbreviation stream :: "rx_event list \<Rightarrow> bytes" where
  "stream evs \<equiv> concat (map ev_bytes evs)"

subsection \<open>Read, Write, Close\<close>

text \<open>One \<^verbatim>\<open>Read\<close> with a buffer of \<open>k\<close> bytes: the bytes, whether there is an error, what is left.\<close>

fun ev_read :: "nat \<Rightarrow> rx_event list \<Rightarrow> (bytes \<times> bool) \<times> rx_event list" where
  "ev_read k [] = (([], True), [])"
| "ev_read k (Seg bs # r) =
     (if length bs \<le> k then ((bs, False), r) else ((take k bs, False), Seg (drop k bs) # r))"
| "ev_read k (SegErr bs # r) =
     (if length bs \<le> k then ((bs, True), r) else ((take k bs, False), SegErr (drop k bs) # r))"

definition conn_read :: "nat \<Rightarrow> conn \<Rightarrow> (bytes \<times> bool) \<times> conn" where
  "conn_read k c =
     (if closed c then (([], True), c)
      else let (res, r) = ev_read k (rx c) in (res, c\<lparr>rx := r\<rparr>))"

text \<open>One \<^verbatim>\<open>Write\<close>: whether the error is nil, and the connection.\<close>

definition conn_write :: "bytes \<Rightarrow> conn \<Rightarrow> bool \<times> conn" where
  "conn_write bs c =
     (if closed c \<or> wleft c = 0 then (False, c)
      else (True, c\<lparr>tx := tx c @ [bs], wleft := wleft c - 1\<rparr>))"

definition conn_close :: "conn \<Rightarrow> conn" where
  "conn_close c = c\<lparr>closed := True\<rparr>"

subsection \<open>io.ReadFull\<close>

text \<open>
  \<^verbatim>\<open>io.ReadFull\<close> calls \<^verbatim>\<open>Read\<close> until the buffer is full; an error that comes with the last bytes
  wanted is dropped. None is a returned error.
\<close>

lemma ev_read_short:
  "ev_read k evs = ((bs, False), r) \<Longrightarrow> length bs < k \<Longrightarrow> length r < length evs"
  by (cases "(k, evs)" rule: ev_read.cases) (auto split: if_splits)

function ev_read_full :: "nat \<Rightarrow> rx_event list \<Rightarrow> bytes option \<times> rx_event list" where
  "ev_read_full k evs =
     (case ev_read k evs of ((bs, err), r) \<Rightarrow>
        if k \<le> length bs then (Some bs, r)
        else if err then (None, r)
        else case ev_read_full (k - length bs) r of
               (None, r') \<Rightarrow> (None, r')
             | (Some rest, r') \<Rightarrow> (Some (bs @ rest), r'))"
  by pat_completeness auto
termination
  by (relation "measure (\<lambda>(k, evs). length evs)") (auto dest: ev_read_short [OF sym])

declare ev_read_full.simps [simp del]

definition read_full :: "nat \<Rightarrow> conn \<Rightarrow> bytes option \<times> conn" where
  "read_full k c =
     (if k = 0 then (Some [], c)
      else if closed c then (None, c)
      else let (res, r) = ev_read_full k (rx c) in (res, c\<lparr>rx := r\<rparr>))"

lemma ev_read_full_Nil [simp]: "ev_read_full k [] = (if k = 0 then Some [] else None, [])"
  by (subst ev_read_full.simps) simp

lemma ev_read_full_Seg:
  "ev_read_full k (Seg bs # r) =
     (if k < length bs then (Some (take k bs), Seg (drop k bs) # r)
      else if k = length bs then (Some bs, r)
      else case ev_read_full (k - length bs) r of
             (None, r') \<Rightarrow> (None, r')
           | (Some rest, r') \<Rightarrow> (Some (bs @ rest), r'))"
  by (subst ev_read_full.simps) auto

lemma ev_read_full_SegErr:
  "ev_read_full k (SegErr bs # r) =
     (if k < length bs then (Some (take k bs), SegErr (drop k bs) # r)
      else if k = length bs then (Some bs, r) else (None, r))"
  by (subst ev_read_full.simps) auto

text \<open>
  On a stream without errors \<open>ReadFull\<close> takes the first bytes of the stream however it is cut,
  and fails exactly when there are too few.
\<close>

lemma ev_read_full_enough:
  assumes "clean evs" and "k \<le> length (stream evs)"
  shows "\<exists>r. ev_read_full k evs = (Some (take k (stream evs)), r) \<and> clean r
    \<and> stream r = drop k (stream evs)"
  using assms
proof (induction evs arbitrary: k)
  case (Cons e evs)
  then obtain bs where e: "e = Seg bs" by (cases e) auto
  show ?case
  proof (cases "k \<le> length bs")
    case True
    with Cons.prems e show ?thesis by (auto simp: ev_read_full_Seg)
  next
    case False
    have "k - length bs \<le> length (stream evs)" using Cons.prems e False by simp
    then obtain r where "ev_read_full (k - length bs) evs = (Some (take (k - length bs) (stream evs)), r)"
      and "clean r" and "stream r = drop (k - length bs) (stream evs)"
      using Cons by fastforce
    with False e show ?thesis by (simp add: ev_read_full_Seg)
  qed
qed simp

lemma ev_read_full_short:
  "clean evs \<Longrightarrow> length (stream evs) < k \<Longrightarrow> ev_read_full k evs = (None, [])"
proof (induction evs arbitrary: k)
  case (Cons e evs)
  then show ?case by (cases e) (auto simp: ev_read_full_Seg)
qed simp

lemma read_full_enough:
  assumes "clean (rx c)" and "\<not> closed c" and "k \<le> length (stream (rx c))"
  obtains r where "read_full k c = (Some (take k (stream (rx c))), c\<lparr>rx := r\<rparr>)"
    and "clean r" and "stream r = drop k (stream (rx c))"
proof (cases "k = 0")
  case True
  with that [of "rx c"] assms show ?thesis by (simp add: read_full_def)
next
  case False
  with ev_read_full_enough [OF assms(1,3)] that assms(2) show ?thesis
    by (auto simp: read_full_def)
qed

lemma read_full_short:
  assumes "clean (rx c)" and "\<not> closed c" and "length (stream (rx c)) < k"
  shows "read_full k c = (None, c\<lparr>rx := []\<rparr>)"
  using assms ev_read_full_short [OF assms(1,3)] by (simp add: read_full_def)

lemma length_ev_read_full: "ev_read_full k evs = (Some bs, r) \<Longrightarrow> length bs = k"
proof (induction evs arbitrary: k bs r)
  case (Cons e evs)
  show ?case
  proof (cases e)
    case (Seg xs)
    show ?thesis
    proof (cases "k \<le> length xs")
      case True
      with Cons.prems Seg show ?thesis by (auto simp: ev_read_full_Seg split: if_splits)
    next
      case False
      with Cons.prems Seg obtain tl where "ev_read_full (k - length xs) evs = (Some tl, r)"
        and "bs = xs @ tl"
        by (auto simp: ev_read_full_Seg split: prod.splits option.splits)
      with Cons.IH [of "k - length xs" tl r] False show ?thesis by simp
    qed
  next
    case (SegErr xs)
    with Cons.prems show ?thesis by (auto simp: ev_read_full_SegErr split: if_splits)
  qed
qed (auto split: if_splits)

lemma length_read_full: "read_full k c = (Some bs, c') \<Longrightarrow> length bs = k"
  by (auto simp: read_full_def dest: length_ev_read_full split: if_splits prod.splits)

lemma read_full_tx:
  "read_full k c = (res, c') \<Longrightarrow> tx c' = tx c \<and> wleft c' = wleft c \<and> closed c' = closed c"
  by (auto simp: read_full_def split: if_splits prod.splits)

lemma conn_write_open [simp]:
  "\<not> closed c \<Longrightarrow> 0 < wleft c \<Longrightarrow>
     conn_write bs c = (True, c\<lparr>tx := tx c @ [bs], wleft := wleft c - 1\<rparr>)"
  by (simp add: conn_write_def)

end
