(* ===== verification/Sha256.thy ===== *)
theory Sha256
  imports Prelude
begin

text \<open>
  \<^verbatim>\<open>crypto/sha256\<close> and \<^verbatim>\<open>crypto/hmac\<close>, which the program's authentication computes with
  (FIPS 180-4 and FIPS 198-1, block size 64, digest size 32). The proofs of the development use
  the digest's length only; the definitions are here so that a run of the protocol is a
  computation.
\<close>

unbundle bit_operations_syntax

type_synonym w32 = "32 word"

text \<open>
  The standard's constants are the first 32 bits of the fractional parts of the cube roots of the
  first 64 primes and of the square roots of the first 8; \<open>int_root k n b\<close> is the integer part
  of the \<open>k\<close>-th root of \<open>n\<close>, found bit by bit from bit \<open>b\<close> down.
\<close>

fun int_root_from :: "nat \<Rightarrow> int \<Rightarrow> nat \<Rightarrow> int \<Rightarrow> int" where
  "int_root_from k n 0 r = (if (r + 1) ^ k \<le> n then r + 1 else r)"
| "int_root_from k n (Suc b) r =
     int_root_from k n b (if (r + 2 ^ Suc b) ^ k \<le> n then r + 2 ^ Suc b else r)"

definition int_root :: "nat \<Rightarrow> int \<Rightarrow> int" where
  "int_root k n = int_root_from k n 36 0"

definition first_primes :: "int list" where
  "first_primes =
     [2, 3, 5, 7, 11, 13, 17, 19, 23, 29, 31, 37, 41, 43, 47, 53, 59, 61, 67, 71, 73, 79, 83, 89,
      97, 101, 103, 107, 109, 113, 127, 131, 137, 139, 149, 151, 157, 163, 167, 173, 179, 181,
      191, 193, 197, 199, 211, 223, 227, 229, 233, 239, 241, 251, 257, 263, 269, 271, 277, 281,
      283, 293, 307, 311]"

definition sha256_k :: "w32 list" where
  "sha256_k = map (\<lambda>p. of_int (int_root 3 (p * 2 ^ 96))) first_primes"

definition rotr32 :: "nat \<Rightarrow> w32 \<Rightarrow> w32" where
  "rotr32 n x = drop_bit n x OR push_bit (32 - n) x"

definition small0 :: "w32 \<Rightarrow> w32" where
  "small0 x = rotr32 7 x XOR rotr32 18 x XOR drop_bit 3 x"

definition small1 :: "w32 \<Rightarrow> w32" where
  "small1 x = rotr32 17 x XOR rotr32 19 x XOR drop_bit 10 x"

definition big0 :: "w32 \<Rightarrow> w32" where
  "big0 x = rotr32 2 x XOR rotr32 13 x XOR rotr32 22 x"

definition big1 :: "w32 \<Rightarrow> w32" where
  "big1 x = rotr32 6 x XOR rotr32 11 x XOR rotr32 25 x"

text \<open>The message schedule, newest word first.\<close>

fun schedule :: "nat \<Rightarrow> w32 list \<Rightarrow> w32 list" where
  "schedule 0 ws = ws"
| "schedule (Suc n) ws =
     schedule n ((small1 (ws ! 1) + ws ! 6 + small0 (ws ! 14) + ws ! 15) # ws)"

type_synonym hstate = "w32 \<times> w32 \<times> w32 \<times> w32 \<times> w32 \<times> w32 \<times> w32 \<times> w32"

fun sha_round :: "hstate \<Rightarrow> w32 \<times> w32 \<Rightarrow> hstate" where
  "sha_round (a, b, c, d, e, f, g, h) (k, w) =
     (let t1 = h + big1 e + ((e AND f) XOR (NOT e AND g)) + k + w;
          t2 = big0 a + ((a AND b) XOR (a AND c) XOR (b AND c))
      in (t1 + t2, a, b, c, d + t1, e, f, g))"

fun add_hstate :: "hstate \<Rightarrow> hstate \<Rightarrow> hstate" where
  "add_hstate (a, b, c, d, e, f, g, h) (a', b', c', d', e', f', g', h') =
     (a + a', b + b', c + c', d + d', e + e', f + f', g + g', h + h')"

fun be_words :: "bytes \<Rightarrow> w32 list" where
  "be_words (a # b # c # d # r) =
     (push_bit 24 (ucast a) OR push_bit 16 (ucast b) OR push_bit 8 (ucast c) OR ucast d)
       # be_words r"
| "be_words _ = []"

definition sha_block :: "hstate \<Rightarrow> bytes \<Rightarrow> hstate" where
  "sha_block h blk =
     add_hstate h (foldl sha_round h (zip sha256_k (rev (schedule 48 (rev (be_words blk))))))"

text \<open>Padding to a multiple of 64 bytes: one bit, zeroes, the bit length in 64 bits.\<close>

definition be_bytes :: "nat \<Rightarrow> int \<Rightarrow> bytes" where
  "be_bytes k n = map (\<lambda>i. of_int (n div 256 ^ i)) (rev [0..<k])"

definition sha_pad :: "bytes \<Rightarrow> bytes" where
  "sha_pad m =
     m @ [0x80] @ replicate ((119 - length m mod 64) mod 64) 0 @ be_bytes 8 (8 * int (length m))"

fun sha_blocks :: "nat \<Rightarrow> hstate \<Rightarrow> bytes \<Rightarrow> hstate" where
  "sha_blocks 0 h m = h"
| "sha_blocks (Suc n) h m = sha_blocks n (sha_block h (take 64 m)) (drop 64 m)"

definition sha_init_word :: "nat \<Rightarrow> w32" where
  "sha_init_word i = of_int (int_root 2 (first_primes ! i * 2 ^ 64))"

definition sha_init :: hstate where
  "sha_init = (sha_init_word 0, sha_init_word 1, sha_init_word 2, sha_init_word 3,
               sha_init_word 4, sha_init_word 5, sha_init_word 6, sha_init_word 7)"

definition word_bytes :: "w32 \<Rightarrow> bytes" where
  "word_bytes w = [ucast (drop_bit 24 w), ucast (drop_bit 16 w), ucast (drop_bit 8 w), ucast w]"

fun hstate_bytes :: "hstate \<Rightarrow> bytes" where
  "hstate_bytes (a, b, c, d, e, f, g, h) = concat (map word_bytes [a, b, c, d, e, f, g, h])"

definition sha256 :: "bytes \<Rightarrow> bytes" where
  "sha256 m = (let p = sha_pad m in hstate_bytes (sha_blocks (length p div 64) sha_init p))"

definition hmac_sha256 :: "bytes \<Rightarrow> bytes \<Rightarrow> bytes" where
  "hmac_sha256 key m =
     (let k0 = (if 64 < length key then sha256 key else key);
          k = k0 @ replicate (64 - length k0) 0
      in sha256 (map (\<lambda>b. b XOR 0x5c) k @ sha256 (map (\<lambda>b. b XOR 0x36) k @ m)))"

lemma length_hstate_bytes [simp]: "length (hstate_bytes h) = 32"
  by (cases h rule: hstate_bytes.cases) (simp add: word_bytes_def)

lemma length_sha256 [simp]: "length (sha256 m) = 32"
  by (simp add: sha256_def Let_def)

lemma length_hmac_sha256 [simp]: "length (hmac_sha256 k m) = 32"
  by (simp add: hmac_sha256_def Let_def)

text \<open>A padded message is a whole number of blocks, so no byte of it is left out.\<close>

lemma length_sha_pad: "length (sha_pad m) mod 64 = 0"
proof -
  define r where "r = length m mod 64"
  have r: "r < 64" and m: "length m = 64 * (length m div 64) + r" by (simp_all add: r_def)
  have pad: "(119 - r) mod 64 = (if r < 56 then 55 - r else 119 - r)"
    using r by (auto simp: mod_if)
  have "length (sha_pad m) = length m + 9 + (119 - r) mod 64"
    by (simp add: sha_pad_def be_bytes_def r_def)
  also have "\<dots> = 64 * (length m div 64) + (if r < 56 then 64 else 128)"
    using m r pad by (auto simp del: mod_mult_div_eq mult_div_mod_eq)
  finally show ?thesis by simp
qed

end
