(* ===== verification/Auth_Protocol.thy ===== *)
theory Auth_Protocol
  imports Conn Sha256
begin

text \<open>
  The binary HMAC handshake of \<^verbatim>\<open>pkg/protocol/auth.go\<close>: the server's nonce, the client's packet
  \<^verbatim>\<open>[len][id][hmac]\<close> and the server's one-byte verdict. A result is \<open>Inl\<close> of the error or \<open>Inr\<close>,
  paired with the connection as the function leaves it. The random nonce is an argument
  (\<open>None\<close>: \<^verbatim>\<open>rand.Read\<close> failed).
\<close>

datatype auth_error = ErrRand | ErrIO | ErrIDLen | ErrHMAC | ErrRejected | ErrClientID

definition ServerAuthenticate ::
    "bytes option \<Rightarrow> conn \<Rightarrow> string \<Rightarrow> (auth_error + string) \<times> conn" where
  "ServerAuthenticate rnd c0 expectedToken =
     (case rnd of None \<Rightarrow> (Inl ErrRand, c0)
      | Some nonce \<Rightarrow>
        (case conn_write nonce c0 of
           (False, c1) \<Rightarrow> (Inl ErrIO, c1)
         | (True, c1) \<Rightarrow>
           (case read_full 1 c1 of
              (None, c2) \<Rightarrow> (Inl ErrIO, c2)
            | (Some header, c2) \<Rightarrow>
              let idLen = unat (header ! 0) in
              if idLen = 0 then (Inl ErrIDLen, snd (conn_write [0] c2))
              else
                (case read_full (idLen + 32) c2 of
                   (None, c3) \<Rightarrow> (Inl ErrIO, c3)
                 | (Some buf, c3) \<Rightarrow>
                   let clientID = bytes_str (take idLen buf);
                       clientHMAC = drop idLen buf;
                       expectedHMAC =
                         hmac_sha256 (str_bytes expectedToken) (nonce @ str_bytes clientID)
                   in if clientHMAC \<noteq> expectedHMAC
                      then (Inl ErrHMAC, snd (conn_write [0] c3))
                      else (case conn_write [1] c3 of
                              (False, c4) \<Rightarrow> (Inl ErrIO, c4)
                            | (True, c4) \<Rightarrow> (Inr clientID, c4))))))"

definition client_packet :: "string \<Rightarrow> bytes \<Rightarrow> string \<Rightarrow> bytes" where
  "client_packet token nonce clientID =
     (let idBytes = str_bytes clientID;
          clientHMAC = hmac_sha256 (str_bytes token) (nonce @ idBytes)
      in of_nat (length idBytes) # idBytes @ clientHMAC)"

definition ClientAuthenticate ::
    "conn \<Rightarrow> string \<Rightarrow> string \<Rightarrow> (auth_error + unit) \<times> conn" where
  "ClientAuthenticate c0 clientID token =
     (case read_full 32 c0 of
        (None, c1) \<Rightarrow> (Inl ErrIO, c1)
      | (Some nonce, c1) \<Rightarrow>
        let idBytes = str_bytes clientID in
        if length idBytes = 0 \<or> 255 < length idBytes then (Inl ErrClientID, c1)
        else
          (case conn_write (client_packet token nonce clientID) c1 of
             (False, c2) \<Rightarrow> (Inl ErrIO, c2)
           | (True, c2) \<Rightarrow>
             (case read_full 1 c2 of
                (None, c3) \<Rightarrow> (Inl ErrIO, c3)
              | (Some ack, c3) \<Rightarrow>
                if ack ! 0 \<noteq> 1 then (Inl ErrRejected, c3) else (Inr (), c3))))"

subsection \<open>What the server does with the bytes it receives\<close>

text \<open>The server's verdict as a function of the whole stream, however it is cut.\<close>

definition server_verdict :: "string \<Rightarrow> bytes \<Rightarrow> bytes \<Rightarrow> auth_error + string" where
  "server_verdict token nonce s =
     (if s = [] then Inl ErrIO
      else let n = unat (s ! 0); body = drop 1 s in
        if n = 0 then Inl ErrIDLen
        else if length body < n + 32 then Inl ErrIO
        else if take 32 (drop n body) = hmac_sha256 (str_bytes token) (nonce @ take n body)
             then Inr (bytes_str (take n body))
        else Inl ErrHMAC)"

definition verdict_reply :: "auth_error + string \<Rightarrow> bytes list" where
  "verdict_reply v =
     (case v of Inr _ \<Rightarrow> [[1]] | Inl ErrIDLen \<Rightarrow> [[0]] | Inl ErrHMAC \<Rightarrow> [[0]] | Inl _ \<Rightarrow> [])"

lemma server_authenticate_verdict:
  assumes "clean (rx c)" and "\<not> closed c" and "2 \<le> wleft c"
  shows "fst (ServerAuthenticate (Some nonce) c token) = server_verdict token nonce (stream (rx c))
    \<and> tx (snd (ServerAuthenticate (Some nonce) c token))
        = tx c @ [nonce] @ verdict_reply (server_verdict token nonce (stream (rx c)))"
proof -
  define c1 where "c1 = c\<lparr>tx := tx c @ [nonce], wleft := wleft c - 1\<rparr>"
  have c1: "conn_write nonce c = (True, c1)" "clean (rx c1)" "\<not> closed c1" "0 < wleft c1"
      "rx c1 = rx c" "tx c1 = tx c @ [nonce]"
    using assms by (auto simp: c1_def)
  show ?thesis
  proof (cases "stream (rx c)")
    case Nil
    with c1 read_full_short [of c1 1] show ?thesis
      by (simp add: ServerAuthenticate_def server_verdict_def verdict_reply_def)
  next
    case (Cons b body)
    then obtain r where r: "read_full 1 c1 = (Some [b], c1\<lparr>rx := r\<rparr>)" "clean r" "stream r = body"
      using read_full_enough [of c1 1] c1 by (auto simp: Cons)
    define c2 where "c2 = c1\<lparr>rx := r\<rparr>"
    have c2: "clean (rx c2)" "\<not> closed c2" "0 < wleft c2" "stream (rx c2) = body"
        "tx c2 = tx c @ [nonce]" "read_full 1 c1 = (Some [b], c2)"
      using c1 r by (auto simp: c2_def)
    show ?thesis
    proof (cases "unat b = 0 \<or> length body < unat b + 32")
      case True
      then show ?thesis
      proof (cases "unat b = 0")
        case True
        with c1 c2 Cons show ?thesis
          by (simp add: ServerAuthenticate_def server_verdict_def verdict_reply_def)
      next
        case False
        then have "read_full (unat b + 32) c2 = (None, c2\<lparr>rx := []\<rparr>)"
          using c2 True by (intro read_full_short) auto
        with False True c1 c2 Cons show ?thesis
          by (simp add: ServerAuthenticate_def server_verdict_def verdict_reply_def)
      qed
    next
      case False
      with c2 obtain r2 where "read_full (unat b + 32) c2 = (Some (take (unat b + 32) body), c2\<lparr>rx := r2\<rparr>)"
        using read_full_enough [of c2 "unat b + 32"] by auto
      moreover have "take (unat b) (take (unat b + 32) body) = take (unat b) body"
        and "drop (unat b) (take (unat b + 32) body) = take 32 (drop (unat b) body)"
        by (simp_all add: take_drop add.commute)
      ultimately show ?thesis using False c1 c2 Cons
        by (simp add: ServerAuthenticate_def server_verdict_def verdict_reply_def Let_def)
    qed
  qed
qed

lemma length_client_packet [simp]: "length (client_packet t n i) = length i + 33"
  by (simp add: client_packet_def Let_def)

lemma server_verdict_packet:
  assumes "1 \<le> length i" and "length i \<le> 255"
  shows "server_verdict t n (client_packet t' n i @ rest) =
    (if hmac_sha256 (str_bytes t') (n @ str_bytes i) = hmac_sha256 (str_bytes t) (n @ str_bytes i)
     then Inr i else Inl ErrHMAC)"
proof -
  have "unat (of_nat (length i) :: byte) = length i"
    using assms by (simp add: unat_of_nat)
  moreover have "i \<noteq> []" using assms by auto
  ultimately show ?thesis
    by (simp add: server_verdict_def client_packet_def Let_def)
qed

lemma server_verdict_Inr:
  assumes "server_verdict t n s = Inr i"
  shows "1 \<le> length i \<and> length i \<le> 255 \<and> (\<exists>rest. s = client_packet t n i @ rest)"
proof -
  define k where "k = unat (s ! 0)"
  define body where "body = drop 1 s"
  have s: "s \<noteq> []" "k \<noteq> 0" "k + 32 \<le> length body"
    and i: "i = bytes_str (take k body)"
    and h: "take 32 (drop k body) = hmac_sha256 (str_bytes t) (n @ take k body)"
    using assms by (auto simp: server_verdict_def Let_def k_def body_def split: if_splits)
  have kb: "k < 256" by (simp add: k_def)
  have li: "length i = k" using s i by simp
  have "body = take k body @ take 32 (drop k body) @ drop 32 (drop k body)"
    by (metis append_take_drop_id)
  moreover have "s = (s ! 0) # body"
    using s(1) by (cases s) (simp_all add: body_def)
  ultimately have "s = (s ! 0) # take k body @ take 32 (drop k body) @ drop 32 (drop k body)"
    by simp
  moreover have "s ! 0 = of_nat k" by (simp add: k_def)
  ultimately have "s = client_packet t n i @ drop 32 (drop k body)"
    using h i li by (simp add: client_packet_def Let_def)
  then show ?thesis using li s kb by auto
qed

subsection \<open>What the client does\<close>

lemma client_authenticate_trace:
  assumes "clean (rx c)" and "\<not> closed c" and "1 \<le> wleft c"
  defines "s \<equiv> stream (rx c)"
  shows "tx (snd (ClientAuthenticate c i t)) = tx c @
      (if 32 \<le> length s \<and> 1 \<le> length i \<and> length i \<le> 255 then [client_packet t (take 32 s) i] else [])"
    and "fst (ClientAuthenticate c i t) =
      (if length s < 32 then Inl ErrIO
       else if length i = 0 \<or> 255 < length i then Inl ErrClientID
       else if length s < 33 then Inl ErrIO
       else if s ! 32 \<noteq> 1 then Inl ErrRejected else Inr ())"
proof -
  have "tx (snd (ClientAuthenticate c i t)) = tx c @
      (if 32 \<le> length s \<and> 1 \<le> length i \<and> length i \<le> 255 then [client_packet t (take 32 s) i] else [])
    \<and> fst (ClientAuthenticate c i t) =
      (if length s < 32 then Inl ErrIO
       else if length i = 0 \<or> 255 < length i then Inl ErrClientID
       else if length s < 33 then Inl ErrIO
       else if s ! 32 \<noteq> 1 then Inl ErrRejected else Inr ())"
  proof (cases "32 \<le> length s \<and> 1 \<le> length i \<and> length i \<le> 255")
    case False
    show ?thesis
    proof (cases "length s < 32")
      case True
      with assms read_full_short [of c 32] show ?thesis
        by (simp add: ClientAuthenticate_def)
    next
      case long: False
      then obtain r where "read_full 32 c = (Some (take 32 s), c\<lparr>rx := r\<rparr>)"
        using read_full_enough [of c 32] assms by auto
      moreover have "i = [] \<or> 255 < length i" using False long by (cases i) auto
      ultimately show ?thesis using long by (auto simp: ClientAuthenticate_def)
    qed
  next
    case True
    then have ne: "i \<noteq> []" by auto
    from True obtain r where r: "read_full 32 c = (Some (take 32 s), c\<lparr>rx := r\<rparr>)" "clean r"
        "stream r = drop 32 s"
      using read_full_enough [of c 32] assms by auto
    define c2 where "c2 = c\<lparr>rx := r, tx := tx c @ [client_packet t (take 32 s) i],
      wleft := wleft c - 1\<rparr>"
    have c2: "conn_write (client_packet t (take 32 s) i) (c\<lparr>rx := r\<rparr>) = (True, c2)"
        "clean (rx c2)" "\<not> closed c2" "stream (rx c2) = drop 32 s"
        "tx c2 = tx c @ [client_packet t (take 32 s) i]"
      using assms r by (auto simp: c2_def)
    show ?thesis
    proof (cases "length s < 33")
      case short: True
      with c2 True read_full_short [of c2 1] show ?thesis
        using r ne by (simp add: ClientAuthenticate_def)
    next
      case False
      then have "1 \<le> length (stream (rx c2))" using c2(4) by simp
      from read_full_enough [OF c2(2,3) this]
      obtain r2 where "read_full 1 c2 = (Some (take 1 (drop 32 s)), c2\<lparr>rx := r2\<rparr>)"
        using c2(4) by metis
      with False True ne c2 r show ?thesis by (simp add: ClientAuthenticate_def)
    qed
  qed
  then show "tx (snd (ClientAuthenticate c i t)) = tx c @
      (if 32 \<le> length s \<and> 1 \<le> length i \<and> length i \<le> 255 then [client_packet t (take 32 s) i] else [])"
    and "fst (ClientAuthenticate c i t) =
      (if length s < 32 then Inl ErrIO
       else if length i = 0 \<or> 255 < length i then Inl ErrClientID
       else if length s < 33 then Inl ErrIO
       else if s ! 32 \<noteq> 1 then Inl ErrRejected else Inr ())"
    by simp_all
qed

subsection \<open>The contract of a challenge-response scheme\<close>

text \<open>
  What a relying party may expect of such a scheme: the response to a nonce is accepted under the
  same token, and only responses made with that token's key are. The lemmas are the ones the
  program's security rests on; their last form leaves the collision resistance of the MAC as
  the only way around them.
\<close>

locale challenge_response =
  fixes respond :: "string \<Rightarrow> bytes \<Rightarrow> string \<Rightarrow> bytes"
    and verify :: "string \<Rightarrow> bytes \<Rightarrow> bytes \<Rightarrow> string option"
    and good_id :: "string \<Rightarrow> bool"
    and mac :: "string \<Rightarrow> bytes \<Rightarrow> string \<Rightarrow> bytes"
  assumes sound: "verify t n r = Some i \<Longrightarrow> good_id i \<and> (\<exists>rest. r = respond t n i @ rest)"
    and decides: "good_id i \<Longrightarrow>
      verify t n (respond t' n' i) = (if mac t' n' i = mac t n i then Some i else None)"
begin

lemma accepts_own: "good_id i \<Longrightarrow> verify t n (respond t n i) = Some i"
  by (simp add: decides)

lemma identity_bound: "good_id i \<Longrightarrow> verify t n (respond t' n' i) = Some j \<Longrightarrow> j = i"
  by (simp add: decides split: if_splits)

lemma replay_needs_collision:
  "good_id i \<Longrightarrow> verify t n' (respond t n i) = Some j \<Longrightarrow> mac t n i = mac t n' i"
  by (simp add: decides split: if_splits)

lemma wrong_token_needs_collision:
  "good_id i \<Longrightarrow> verify t n (respond t' n i) = Some j \<Longrightarrow> mac t' n i = mac t n i"
  by (simp add: decides split: if_splits)

end

text \<open>A scheme whose responses delimit themselves: what follows one is left alone.\<close>

locale framed_challenge_response = challenge_response +
  assumes framed: "good_id i \<Longrightarrow> verify t n (respond t n i @ rest) = Some i"
begin

lemma prefix_free: "good_id i \<Longrightarrow> good_id j \<Longrightarrow> respond t n i @ r = respond t n j @ s \<Longrightarrow> i = j"
  by (metis framed option.inject)

end

definition id_length_ok :: "string \<Rightarrow> bool" where
  "id_length_ok i \<longleftrightarrow> 1 \<le> length i \<and> length i \<le> 255"

definition token_mac :: "string \<Rightarrow> bytes \<Rightarrow> string \<Rightarrow> bytes" where
  "token_mac t n i = hmac_sha256 (str_bytes t) (n @ str_bytes i)"

definition server_accepts :: "string \<Rightarrow> bytes \<Rightarrow> bytes \<Rightarrow> string option" where
  "server_accepts t n reply =
     (case fst (ServerAuthenticate (Some n) (new_conn [Seg reply] 2) t) of
        Inl _ \<Rightarrow> None | Inr i \<Rightarrow> Some i)"

lemma server_accepts_verdict:
  "server_accepts t n r = (case server_verdict t n r of Inl _ \<Rightarrow> None | Inr i \<Rightarrow> Some i)"
  using server_authenticate_verdict [of "new_conn [Seg r] 2" n t]
  by (simp add: server_accepts_def new_conn_def)

interpretation binary: framed_challenge_response client_packet server_accepts id_length_ok token_mac
proof unfold_locales
  show "id_length_ok i \<and> (\<exists>rest. r = client_packet t n i @ rest)"
    if "server_accepts t n r = Some i" for t n r i
    using that server_verdict_Inr [of t n r i]
    by (auto simp: server_accepts_verdict id_length_ok_def split: sum.splits)
next
  fix i t n t' n'
  assume i: "id_length_ok i"
  have "hmac_sha256 (str_bytes t') (n' @ str_bytes i) = token_mac t' n' i"
    by (simp add: token_mac_def)
  moreover have "unat (of_nat (length i) :: byte) = length i" and "i \<noteq> []"
    using i by (auto simp: id_length_ok_def unat_of_nat)
  ultimately show "server_accepts t n (client_packet t' n' i)
      = (if token_mac t' n' i = token_mac t n i then Some i else None)"
    by (auto simp: server_accepts_verdict server_verdict_def client_packet_def Let_def token_mac_def)
next
  show "server_accepts t n (client_packet t n i @ rest) = Some i" if "id_length_ok i" for i t n rest
    using that by (simp add: server_accepts_verdict server_verdict_packet id_length_ok_def)
qed

subsection \<open>Properties\<close>

text \<open>
  C17. The two sides of the handshake agree. When each side receives exactly what the other side
  writes, in whatever pieces, the server returns the client's identifier and the client returns
  no error if their tokens give the same MAC; both report a rejection if not; and an identifier
  that does not fit the length byte is refused by the client before it sends anything, which the
  server sees as a closed stream.
\<close>

theorem handshake_outcome:
  assumes "clean (rx s)" and "\<not> closed s" and "2 \<le> wleft s" and "tx s = []"
    and "clean (rx c)" and "\<not> closed c" and "1 \<le> wleft c" and "tx c = []"
    and "length nonce = 32"
    and "stream (rx s) = concat (tx (snd (ClientAuthenticate c i tc)))"
    and "stream (rx c) = concat (tx (snd (ServerAuthenticate (Some nonce) s ts)))"
  shows "(fst (ServerAuthenticate (Some nonce) s ts), fst (ClientAuthenticate c i tc)) =
    (if \<not> id_length_ok i then (Inl ErrIO, Inl ErrClientID)
     else if token_mac tc nonce i = token_mac ts nonce i then (Inr i, Inr ())
     else (Inl ErrHMAC, Inl ErrRejected))"
proof -
  let ?v = "server_verdict ts nonce (stream (rx s))"
  note sv = server_authenticate_verdict [OF assms(1-3), of nonce ts]
  have sc: "stream (rx c) = nonce @ concat (verdict_reply ?v)"
    using assms(4,11) sv by simp
  note cl = client_authenticate_trace [OF assms(5-7), of i tc]
  have ss: "stream (rx s) = (if id_length_ok i then client_packet tc nonce i else [])"
  proof -
    have "take 32 (stream (rx c)) = nonce" and "32 \<le> length (stream (rx c))"
      unfolding sc using assms(9) by simp_all
    then have "tx (snd (ClientAuthenticate c i tc)) =
        (if id_length_ok i then [client_packet tc nonce i] else [])"
      using cl(1) assms(8) by (simp add: id_length_ok_def)
    then show ?thesis unfolding assms(10) by simp
  qed
  show ?thesis
  proof (cases "id_length_ok i")
    case False
    then have "?v = Inl ErrIO" using ss by (simp add: server_verdict_def)
    moreover have "i = [] \<or> 255 < length i" using False by (cases i) (auto simp: id_length_ok_def)
    ultimately show ?thesis using False sv cl(2) sc assms(9) by auto
  next
    case True
    then have v: "?v = (if token_mac tc nonce i = token_mac ts nonce i then Inr i else Inl ErrHMAC)"
      using ss server_verdict_packet [of i ts nonce tc "[]"] by (simp add: id_length_ok_def token_mac_def)
    have "stream (rx c) = nonce @ [if token_mac tc nonce i = token_mac ts nonce i then 1 else 0]"
      unfolding sc v by (simp add: verdict_reply_def)
    with True sv cl(2) v assms(9) show ?thesis by (auto simp: id_length_ok_def nth_append)
  qed
qed

lemma handshake_outcome_witness:
  "fst (ServerAuthenticate (Some (replicate 32 7))
      (new_conn [Seg [1], Seg (tl (client_packet ''k'' (replicate 32 7) ''a''))] 2) ''k'') = Inr ''a''
   \<and> fst (ClientAuthenticate (new_conn [Seg (replicate 20 7), Seg (replicate 12 7 @ [1])] 1) ''a'' ''k'')
      = Inr ()"
proof -
  let ?n = "replicate 32 7 :: bytes"
  let ?s = "new_conn [Seg [1], Seg (tl (client_packet ''k'' ?n ''a''))] 2"
  let ?c = "new_conn [Seg (replicate 20 7), Seg (replicate 12 7 @ [1])] 1"
  have flat: "replicate 20 7 @ replicate 12 (7 :: byte) @ [1] = ?n @ [1]"
    by (simp add: replicate_add [symmetric] del: replicate.simps flip: append_assoc)
  have ps: "stream (rx ?s) = client_packet ''k'' ?n ''a''"
    by (simp add: new_conn_def client_packet_def Let_def)
  have pc: "stream (rx ?c) = ?n @ [1]" using flat by (simp add: new_conn_def)
  have v: "server_verdict ''k'' ?n (client_packet ''k'' ?n ''a'') = Inr ''a''"
    using server_verdict_packet [of "''a''" "''k''" ?n "''k''" "[]"] by simp
  have net1: "stream (rx ?s) = concat (tx (snd (ClientAuthenticate ?c ''a'' ''k'')))"
    unfolding ps using client_authenticate_trace(1) [of ?c "''a''" "''k''", unfolded pc]
    by (simp add: new_conn_def)
  have net2: "stream (rx ?c) = concat (tx (snd (ServerAuthenticate (Some ?n) ?s ''k'')))"
    unfolding pc using server_authenticate_verdict [of ?s ?n "''k''", unfolded ps v]
    by (simp add: new_conn_def verdict_reply_def)
  show ?thesis
    using handshake_outcome [OF _ _ _ _ _ _ _ _ _ net1 net2]
    by (simp add: new_conn_def id_length_ok_def)
qed

text \<open>
  C18. The server's decision on an arbitrary stream, from an honest client or not: it returns an
  identifier exactly when the stream begins with the packet an honest client with the server's
  own token would send for that identifier and this nonce, and then it has written the nonce and
  the byte 1; in every other case it returns an error and never writes the byte 1.
\<close>

theorem server_authenticate_sound_complete:
  assumes "clean (rx c)" and "\<not> closed c" and "2 \<le> wleft c"
  shows "(fst (ServerAuthenticate (Some nonce) c token) = Inr i) =
      (id_length_ok i \<and> (\<exists>rest. stream (rx c) = client_packet token nonce i @ rest))
    \<and> (tx (snd (ServerAuthenticate (Some nonce) c token)) = tx c @ [nonce, [1]])
      = (\<exists>j. fst (ServerAuthenticate (Some nonce) c token) = Inr j)"
proof -
  let ?v = "server_verdict token nonce (stream (rx c))"
  have "(?v = Inr i) = (id_length_ok i \<and> (\<exists>rest. stream (rx c) = client_packet token nonce i @ rest))"
    using server_verdict_Inr [of token nonce "stream (rx c)" i]
    by (auto simp: id_length_ok_def server_verdict_packet)
  moreover have "(verdict_reply ?v = [[1]]) = (\<exists>j. ?v = Inr j)"
    by (auto simp: verdict_reply_def split: sum.splits auth_error.splits)
  ultimately show ?thesis
    using server_authenticate_verdict [OF assms, of nonce token] by auto
qed

lemma server_authenticate_sound_complete_witness:
  "fst (ServerAuthenticate (Some [9]) (new_conn [Seg (client_packet ''t'' [9] ''id'')] 2) ''t'')
    = Inr ''id''"
  using server_authenticate_sound_complete
    [of "new_conn [Seg (client_packet ''t'' [9] ''id'')] 2" "[9]" "''t''" "''id''"]
  by (simp add: new_conn_def id_length_ok_def)

text \<open>
  C19. Replay and wrong tokens. A packet made for one nonce and token is accepted under another
  nonce or another token only if the two MACs are equal, and the server then still returns the
  identifier the packet was made for: a recorded packet cannot be used to claim another identity.
\<close>

theorem replay_and_wrong_token:
  assumes "id_length_ok i" and "server_accepts t n (client_packet t' n' i) = Some j"
  shows "j = i \<and> token_mac t' n' i = token_mac t n i"
  using assms binary.decides [of i t n t' n'] by (simp split: if_splits)

lemma replay_and_wrong_token_witness:
  "server_accepts ''t'' [5] (client_packet ''t'' [5] ''id'') = Some ''id''
   \<and> token_mac ''t'' [5] ''id'' = token_mac ''t'' [5] ''id''"
proof -
  have ok: "id_length_ok ''id''" by (simp add: id_length_ok_def)
  have acc: "server_accepts ''t'' [5] (client_packet ''t'' [5] ''id'') = Some ''id''"
    by (rule binary.accepts_own [OF ok])
  from replay_and_wrong_token [OF ok acc] acc show ?thesis by simp
qed

end
