(* ===== verification/Xor_Obfuscation.thy ===== *)
theory Xor_Obfuscation
  imports Conn
begin

text \<open>
  The XOR wrapper that both ends put around the control connection
  (\<^verbatim>\<open>obfuscatedConn\<close> of \<^verbatim>\<open>pkg/server/server.go\<close> and of \<^verbatim>\<open>pkg/client/client.go\<close>, two copies
  of the same code). The key index is the byte's index within one call of \<^verbatim>\<open>Read\<close> or \<^verbatim>\<open>Write\<close>,
  not its position in the stream; the last part says exactly when the two agree.
\<close>

unbundle bit_operations_syntax

record obfuscated_conn =
  oconn :: conn
  xorKey :: bytes

definition newObfuscatedConn :: "conn \<Rightarrow> obfuscated_conn" where
  "newObfuscatedConn c =
     (let key = [0xFA, 0xCE, 0x11, 0x99, 0x55, 0xAA, 0x33, 0x77,
                 0xBB, 0xCC, 0xDD, 0xEE, 0x12, 0x34, 0x56, 0x78]
      in \<lparr>oconn = c, xorKey = key\<rparr>)"

text \<open>The loop \<^verbatim>\<open>for i := 0; i < n; i++ { b[i] ^= o.xorKey[i%len(o.xorKey)] }\<close>.\<close>

definition xor_loop :: "bytes \<Rightarrow> bytes \<Rightarrow> bytes" where
  "xor_loop key b = map (\<lambda>i. b ! i XOR key ! (i mod length key)) [0..<length b]"

definition obf_read :: "nat \<Rightarrow> obfuscated_conn \<Rightarrow> (bytes \<times> bool) \<times> obfuscated_conn" where
  "obf_read k oc =
     (let ((b, err), c) = conn_read k (oconn oc) in
      if err then ((b, err), oc\<lparr>oconn := c\<rparr>)
      else ((xor_loop (xorKey oc) b, False), oc\<lparr>oconn := c\<rparr>))"

definition obf_write :: "bytes \<Rightarrow> obfuscated_conn \<Rightarrow> bool \<times> obfuscated_conn" where
  "obf_write b oc =
     (let buf = xor_loop (xorKey oc) b; (ok, c) = conn_write buf (oconn oc)
      in (ok, oc\<lparr>oconn := c\<rparr>))"

text \<open>The client's copy.\<close>

definition client_newObfuscatedConn :: "conn \<Rightarrow> obfuscated_conn" where
  "client_newObfuscatedConn c =
     (let key = [0xFA, 0xCE, 0x11, 0x99, 0x55, 0xAA, 0x33, 0x77,
                 0xBB, 0xCC, 0xDD, 0xEE, 0x12, 0x34, 0x56, 0x78]
      in \<lparr>oconn = c, xorKey = key\<rparr>)"

definition client_obf_read :: "nat \<Rightarrow> obfuscated_conn \<Rightarrow> (bytes \<times> bool) \<times> obfuscated_conn" where
  "client_obf_read k oc =
     (let ((b, err), c) = conn_read k (oconn oc) in
      if err then ((b, err), oc\<lparr>oconn := c\<rparr>)
      else ((xor_loop (xorKey oc) b, False), oc\<lparr>oconn := c\<rparr>))"

definition client_obf_write :: "bytes \<Rightarrow> obfuscated_conn \<Rightarrow> bool \<times> obfuscated_conn" where
  "client_obf_write b oc =
     (let buf = xor_loop (xorKey oc) b; (ok, c) = conn_write buf (oconn oc)
      in (ok, oc\<lparr>oconn := c\<rparr>))"

definition the_key :: bytes where
  "the_key = xorKey (newObfuscatedConn (new_conn [] 0))"

subsection \<open>One call\<close>

lemma the_key_eq:
  "the_key = [0xFA, 0xCE, 0x11, 0x99, 0x55, 0xAA, 0x33, 0x77,
              0xBB, 0xCC, 0xDD, 0xEE, 0x12, 0x34, 0x56, 0x78]"
  by (simp add: the_key_def newObfuscatedConn_def)

lemma length_the_key [simp]: "length the_key = 16"
  by (simp add: the_key_eq)

lemma key_of_new [simp]:
  "xorKey (newObfuscatedConn c) = the_key" "oconn (newObfuscatedConn c) = c"
  "xorKey (client_newObfuscatedConn c) = the_key" "oconn (client_newObfuscatedConn c) = c"
  by (simp_all add: newObfuscatedConn_def client_newObfuscatedConn_def the_key_eq)

lemma distinct_the_key: "distinct the_key"
  by (simp add: the_key_eq)

lemma the_key_inj: "(the_key ! (p mod 16) = the_key ! (q mod 16)) = (p mod 16 = q mod 16)"
  by (rule nth_eq_iff_index_eq [OF distinct_the_key]) simp_all

lemma length_xor_loop [simp]: "length (xor_loop key b) = length b"
  by (simp add: xor_loop_def)

lemma nth_xor_loop [simp]:
  "i < length b \<Longrightarrow> xor_loop key b ! i = b ! i XOR key ! (i mod length key)"
  by (simp add: xor_loop_def)

lemma xor_cancel [simp]: "(x XOR k) XOR k = (x :: 'a :: len word)"
  by (simp add: xor.assoc)

lemma xor_cancel_iff: "((x XOR k) XOR l = x) = (k = (l :: 'a :: len word))"
  by (metis xor.assoc xor.left_neutral xor_self_eq)

lemma xor_loop_involution [simp]: "xor_loop key (xor_loop key b) = b"
  by (rule nth_equalityI) simp_all

subsection \<open>A whole stream\<close>

text \<open>\<open>offsets ns\<close>: for each position of a stream cut into pieces of these lengths, its index
  within its piece.\<close>

definition offsets :: "nat list \<Rightarrow> nat list" where
  "offsets ns = concat (map (\<lambda>n. [0..<n]) ns)"

lemma length_offsets [simp]: "length (offsets ns) = sum_list ns"
  by (induction ns) (simp_all add: offsets_def)

lemma offsets_Cons [simp]: "offsets (n # ns) = [0..<n] @ offsets ns"
  by (simp add: offsets_def)

lemma offsets_aligned:
  "\<forall>n\<in>set (butlast ns). 16 dvd n \<Longrightarrow> j < sum_list ns \<Longrightarrow> offsets ns ! j mod 16 = j mod 16"
proof (induction ns arbitrary: j)
  case (Cons n ns)
  show ?case
  proof (cases "j < n")
    case True
    then show ?thesis by (simp add: nth_append)
  next
    case False
    with Cons.prems have ne: "ns \<noteq> []" by auto
    with Cons.prems have "16 dvd n" by simp
    then have e: "(j - n) mod 16 = j mod 16" using False by (simp add: mod_diff_dvd)
    have "offsets (n # ns) ! j = offsets ns ! (j - n)" using False by (simp add: nth_append)
    moreover have "offsets ns ! (j - n) mod 16 = (j - n) mod 16"
      using Cons.prems False ne by (intro Cons.IH) auto
    ultimately show ?thesis using e by metis
  qed
qed simp

lemma nth_concat_xor:
  "j < length (concat ws) \<Longrightarrow> concat (map (xor_loop key) ws) ! j
     = concat ws ! j XOR key ! (offsets (map length ws) ! j mod length key)"
  by (induction ws arbitrary: j) (auto simp: nth_append)

text \<open>What a run of writes leaves on the wire, and what a run of reads returns.\<close>

fun obf_write_all :: "bytes list \<Rightarrow> obfuscated_conn \<Rightarrow> obfuscated_conn" where
  "obf_write_all [] oc = oc"
| "obf_write_all (b # bs) oc = obf_write_all bs (snd (client_obf_write b oc))"

fun obf_read_all :: "nat \<Rightarrow> nat \<Rightarrow> obfuscated_conn \<Rightarrow> bytes list" where
  "obf_read_all k 0 oc = []"
| "obf_read_all k (Suc n) oc =
     (case obf_read k oc of ((b, err), oc') \<Rightarrow> b # obf_read_all k n oc')"

lemma obf_write_all_tx:
  assumes "\<not> closed (oconn oc)" and "length ws \<le> wleft (oconn oc)"
  shows "tx (oconn (obf_write_all ws oc)) = tx (oconn oc) @ map (xor_loop (xorKey oc)) ws"
  using assms
proof (induction ws arbitrary: oc)
  case (Cons w ws)
  then show ?case by (simp add: client_obf_write_def Let_def)
qed simp

lemma obf_read_all_segs:
  assumes "rx (oconn oc) = map Seg rs" and "\<not> closed (oconn oc)" and "\<forall>r\<in>set rs. length r \<le> k"
  shows "obf_read_all k (length rs) oc = map (xor_loop (xorKey oc)) rs"
  using assms
proof (induction rs arbitrary: oc)
  case (Cons r rs)
  then show ?case by (simp add: obf_read_def conn_read_def Let_def)
qed simp

subsection \<open>Properties\<close>

text \<open>
  C33. The exact behaviour of the XOR layer on a stream. The client writes the buffers \<open>ws\<close>; the
  server's reads return the same bytes cut into the pieces \<open>rs\<close>. Then the byte at position \<open>j\<close>
  comes through unchanged if and only if its index within its \<^verbatim>\<open>Write\<close> and its index within its
  \<^verbatim>\<open>Read\<close> are congruent modulo 16, the length of the key.
\<close>

theorem obfuscation_exact:
  assumes "length ws \<le> n" and "\<forall>r\<in>set rs. length r \<le> k"
    and "concat rs = concat (tx (oconn (obf_write_all ws (client_newObfuscatedConn (new_conn [] n)))))"
    and "j < length (concat ws)"
  shows "(concat (obf_read_all k (length rs) (newObfuscatedConn (new_conn (map Seg rs) 0))) ! j
      = concat ws ! j)
    = (offsets (map length ws) ! j mod 16 = offsets (map length rs) ! j mod 16)"
proof -
  have wire: "concat rs = concat (map (xor_loop the_key) ws)"
    using assms(1,3) by (simp add: obf_write_all_tx new_conn_def)
  have "length (concat rs) = length (concat ws)"
    unfolding wire by (simp add: length_concat comp_def)
  then have jr: "j < length (concat rs)" using assms(4) by simp
  have read: "obf_read_all k (length rs) (newObfuscatedConn (new_conn (map Seg rs) 0))
      = map (xor_loop the_key) rs"
    using assms(2) by (subst obf_read_all_segs) (simp_all add: new_conn_def)
  have "concat (map (xor_loop the_key) rs) ! j
      = (concat ws ! j XOR the_key ! (offsets (map length ws) ! j mod 16))
        XOR the_key ! (offsets (map length rs) ! j mod 16)"
    using nth_concat_xor [OF jr, of the_key] nth_concat_xor [OF assms(4), of the_key]
    by (simp add: wire)
  then show ?thesis by (simp add: read xor_cancel_iff the_key_inj)
qed

lemma obfuscation_exact_witness:
  "concat (obf_read_all 8 1 (newObfuscatedConn (new_conn (map Seg [[0xFB, 0xF8]]) 0))) ! 1 \<noteq> 2"
proof -
  have wire: "concat [[0xFB, 0xF8]] = concat (tx (oconn
      (obf_write_all [[1], [2]] (client_newObfuscatedConn (new_conn [] 2)))))"
    by (subst obf_write_all_tx)
      (simp_all add: new_conn_def xor_loop_def the_key_eq)
  show ?thesis using obfuscation_exact [OF _ _ wire, of 8 1]
    by (simp add: offsets_def del: obf_read_all.simps)
qed

text \<open>
  When the pieces on both sides are aligned, every write and every read but the last having a
  length that is a multiple of 16, the server reads exactly the bytes the client wrote.
\<close>

theorem obfuscation_aligned_roundtrip:
  assumes "length ws \<le> n" and "\<forall>r\<in>set rs. length r \<le> k"
    and "concat rs = concat (tx (oconn (obf_write_all ws (client_newObfuscatedConn (new_conn [] n)))))"
    and "\<forall>w\<in>set (butlast ws). 16 dvd length w" and "\<forall>r\<in>set (butlast rs). 16 dvd length r"
  shows "concat (obf_read_all k (length rs) (newObfuscatedConn (new_conn (map Seg rs) 0))) = concat ws"
proof -
  have wire: "concat rs = concat (map (xor_loop the_key) ws)"
    using assms(1,3) by (simp add: obf_write_all_tx new_conn_def)
  have len: "length (concat rs) = length (concat ws)"
    unfolding wire by (simp add: length_concat comp_def)
  have read: "obf_read_all k (length rs) (newObfuscatedConn (new_conn (map Seg rs) 0))
      = map (xor_loop the_key) rs"
    using assms(2) by (subst obf_read_all_segs) (simp_all add: new_conn_def)
  show ?thesis
  proof (rule nth_equalityI)
    show "length (concat (obf_read_all k (length rs) (newObfuscatedConn (new_conn (map Seg rs) 0))))
        = length (concat ws)"
      using len by (simp add: read length_concat comp_def)
  next
    fix j
    assume "j < length (concat (obf_read_all k (length rs) (newObfuscatedConn (new_conn (map Seg rs) 0))))"
    then have jw: "j < length (concat ws)" and jr: "j < length (concat rs)"
      using len by (simp_all add: read length_concat comp_def)
    have "offsets (map length ws) ! j mod 16 = j mod 16"
      by (rule offsets_aligned) (use assms(4) jw in \<open>auto simp: length_concat simp flip: map_butlast\<close>)
    moreover have "offsets (map length rs) ! j mod 16 = j mod 16"
      by (rule offsets_aligned) (use assms(5) jr in \<open>auto simp: length_concat simp flip: map_butlast\<close>)
    ultimately show "concat (obf_read_all k (length rs) (newObfuscatedConn (new_conn (map Seg rs) 0))) ! j
        = concat ws ! j"
      using nth_concat_xor [OF jr, of the_key] nth_concat_xor [OF jw, of the_key]
      by (simp add: read wire)
  qed
qed

lemma obfuscation_aligned_roundtrip_witness:
  "concat (obf_read_all 4096 2 (newObfuscatedConn (new_conn (map Seg
      [xor_loop the_key (replicate 16 1), xor_loop the_key [2]]) 0))) = replicate 16 1 @ [2]"
proof -
  have wire: "concat [xor_loop the_key (replicate 16 1), xor_loop the_key [2]] = concat (tx (oconn
      (obf_write_all [replicate 16 1, [2]] (client_newObfuscatedConn (new_conn [] 2)))))"
    by (subst obf_write_all_tx) (simp_all add: new_conn_def)
  have two: "length [xor_loop the_key (replicate 16 1), xor_loop the_key [2]] = 2" by simp
  have "\<forall>r\<in>set [xor_loop the_key (replicate 16 1), xor_loop the_key [2]]. length r \<le> 4096"
    and "\<forall>r\<in>set (butlast [xor_loop the_key (replicate 16 1), xor_loop the_key [2]]). 16 dvd length r"
    and "\<forall>w\<in>set (butlast [replicate 16 1, [2 :: byte]]). 16 dvd length w"
    by simp_all
  from obfuscation_aligned_roundtrip [OF _ this(1) wire this(3,2), unfolded two]
  show ?thesis by simp
qed

text \<open>
  Two writes that arrive in one read (as a frame's header and its body do on a TCP connection)
  are not decoded: unless the first one's length is a multiple of 16, every byte of the second
  one comes out changed, while the first one is intact.
\<close>

theorem coalesced_writes_corrupted:
  assumes "length a mod 16 \<noteq> 0" and "length a + length b \<le> k"
  defines "wire \<equiv> concat (tx (oconn (obf_write_all [a, b] (client_newObfuscatedConn (new_conn [] 2)))))"
  defines "got \<equiv> concat (obf_read_all k 1 (newObfuscatedConn (new_conn [Seg wire] 0)))"
  shows "take (length a) got = a \<and> (\<forall>j < length b. drop (length a) got ! j \<noteq> b ! j)"
proof -
  have w: "wire = xor_loop the_key a @ xor_loop the_key b"
    unfolding wire_def by (subst obf_write_all_tx) (simp_all add: new_conn_def)
  have "obf_read_all k (length [wire]) (newObfuscatedConn (new_conn (map Seg [wire]) 0))
      = map (xor_loop the_key) [wire]"
    using assms(2) by (subst obf_read_all_segs) (simp_all add: new_conn_def w)
  then have g: "got = xor_loop the_key wire" by (simp add: got_def)
  have "drop (length a) got ! j \<noteq> b ! j" if "j < length b" for j
  proof -
    have "drop (length a) got ! j = wire ! (length a + j) XOR the_key ! ((length a + j) mod 16)"
      using that by (simp add: g w)
    also have "\<dots> = (b ! j XOR the_key ! (j mod 16)) XOR the_key ! ((length a + j) mod 16)"
      using that by (simp add: w nth_append)
    also have "\<dots> \<noteq> b ! j"
    proof -
      have "j mod 16 \<noteq> (length a + j) mod 16" using assms(1) by (rule mod_add_neq)
      then show ?thesis by (metis the_key_inj xor_cancel_iff)
    qed
    finally show ?thesis .
  qed
  moreover have "take (length a) got = a"
    by (rule nth_equalityI) (simp_all add: g w nth_append)
  ultimately show ?thesis by blast
qed

lemma coalesced_writes_corrupted_witness:
  "length (replicate 12 (0 :: byte)) mod 16 \<noteq> 0
   \<and> take 12 (concat (obf_read_all 4096 1 (newObfuscatedConn (new_conn [Seg (concat (tx (oconn
        (obf_write_all [replicate 12 0, [1, 2]] (client_newObfuscatedConn (new_conn [] 2))))))] 0))))
      = replicate 12 0"
proof -
  have "length (replicate 12 (0 :: byte)) mod 16 \<noteq> 0"
    and "length (replicate 12 (0 :: byte)) + length [1, 2 :: byte] \<le> 4096" by simp_all
  from coalesced_writes_corrupted [OF this] this(1) show ?thesis by (simp only: length_replicate simp_thms)
qed

end
