(* ===== verification/Junk_Handshake.thy ===== *)
theory Junk_Handshake
  imports Conn
begin

text \<open>
  The junk exchange of \<^verbatim>\<open>pkg/obfuscate/obfuscate.go\<close>. The random size byte and the random junk are
  arguments (\<open>None\<close>: \<^verbatim>\<open>rand.Read\<close> failed); \<open>junk n\<close> is what \<^verbatim>\<open>rand.Read\<close> puts into a buffer of
  length \<open>n\<close>. A result is the error, if any, and the connection.
\<close>

definition MaxJunkSize :: nat where
  "MaxJunkSize = 256"

datatype junk_error =
    RandFailed | WriteFailed | JunkHeader | JunkPayload
  | ClientJunkWrite junk_error | ClientJunkRead junk_error
  | ServerJunkRead junk_error | ServerJunkWrite junk_error

record ObfuscatedConn =
  inner :: conn
  handshakeDone :: bool

definition NewObfuscatedConn :: "conn \<Rightarrow> ObfuscatedConn" where
  "NewObfuscatedConn c = \<lparr>inner = c, handshakeDone = False\<rparr>"

definition WriteJunk ::
    "byte option \<Rightarrow> (nat \<Rightarrow> bytes option) \<Rightarrow> ObfuscatedConn \<Rightarrow> junk_error option \<times> ObfuscatedConn" where
  "WriteJunk sz junk oc =
     (case sz of
        None \<Rightarrow> (Some RandFailed, oc)
      | Some sizeBuf \<Rightarrow>
        let junkLen = unat sizeBuf mod MaxJunkSize + 1 in
        (case junk junkLen of
           None \<Rightarrow> (Some RandFailed, oc)
         | Some js \<Rightarrow>
           (case conn_write (of_nat junkLen # js) (inner oc) of
              (ok, c) \<Rightarrow> (if ok then None else Some WriteFailed, oc\<lparr>inner := c\<rparr>))))"

definition ReadJunk :: "ObfuscatedConn \<Rightarrow> junk_error option \<times> ObfuscatedConn" where
  "ReadJunk oc =
     (case read_full 1 (inner oc) of
        (None, c1) \<Rightarrow> (Some JunkHeader, oc\<lparr>inner := c1\<rparr>)
      | (Some sizeBuf, c1) \<Rightarrow>
        let junkLen = unat (sizeBuf ! 0) in
        if junkLen > 0 then
          (case read_full junkLen c1 of
             (None, c2) \<Rightarrow> (Some JunkPayload, oc\<lparr>inner := c2\<rparr>)
           | (Some _, c2) \<Rightarrow> (None, oc\<lparr>inner := c2\<rparr>))
        else (None, oc\<lparr>inner := c1\<rparr>))"

definition PerformClientHandshake ::
    "byte option \<Rightarrow> (nat \<Rightarrow> bytes option) \<Rightarrow> conn \<Rightarrow> (junk_error + ObfuscatedConn) \<times> conn" where
  "PerformClientHandshake sz junk c =
     (let obf = NewObfuscatedConn c in
      case WriteJunk sz junk obf of
        (Some e, obf1) \<Rightarrow> (Inl (ClientJunkWrite e), inner obf1)
      | (None, obf1) \<Rightarrow>
        (case ReadJunk obf1 of
           (Some e, obf2) \<Rightarrow> (Inl (ClientJunkRead e), inner obf2)
         | (None, obf2) \<Rightarrow> (Inr obf2, inner obf2)))"

definition PerformServerHandshake ::
    "byte option \<Rightarrow> (nat \<Rightarrow> bytes option) \<Rightarrow> conn \<Rightarrow> (junk_error + ObfuscatedConn) \<times> conn" where
  "PerformServerHandshake sz junk c =
     (let obf = NewObfuscatedConn c in
      case ReadJunk obf of
        (Some e, obf1) \<Rightarrow> (Inl (ServerJunkRead e), inner obf1)
      | (None, obf1) \<Rightarrow>
        (case WriteJunk sz junk obf1 of
           (Some e, obf2) \<Rightarrow> (Inl (ServerJunkWrite e), inner obf2)
         | (None, obf2) \<Rightarrow> (Inr obf2, inner obf2)))"

subsection \<open>The message and what its reader leaves\<close>

definition junk_len :: "byte \<Rightarrow> nat" where
  "junk_len b = unat b + 1"

text \<open>The random source fills the whole buffer.\<close>

definition fills :: "(nat \<Rightarrow> bytes option) \<Rightarrow> bool" where
  "fills junk \<longleftrightarrow> (\<forall>n. \<exists>js. junk n = Some js \<and> length js = n)"

lemma fillsE:
  assumes "fills junk"
  obtains js where "junk n = Some js" and "length js = n"
  using assms by (auto simp: fills_def)

lemma junk_len_mod [simp]: "unat (b :: byte) mod MaxJunkSize + 1 = junk_len b"
proof -
  have "unat b mod 256 = unat b" by (rule mod_less) simp
  then show ?thesis by (simp add: junk_len_def MaxJunkSize_def)
qed

lemma unat_junk_header:
  "unat (of_nat (junk_len b) :: byte) = (if b = 255 then 0 else junk_len b)"
proof -
  have "unat (of_nat (junk_len b) :: byte) = junk_len b mod 256"
    by (simp add: unat_of_nat)
  moreover have "(b = 255) = (junk_len b = 256)"
    by (auto simp: junk_len_def word_unat_eq_iff)
  moreover have "junk_len b \<le> 256"
    using unat_byte_less [of b] unfolding junk_len_def by linarith
  ultimately show ?thesis by auto
qed

lemma write_junk_ok:
  assumes "fills junk" and "\<not> closed (inner oc)" and "0 < wleft (inner oc)"
  obtains js where "junk (junk_len b) = Some js" and "length js = junk_len b"
    and "WriteJunk (Some b) junk oc = (None, oc\<lparr>inner := (inner oc)
      \<lparr>tx := tx (inner oc) @ [of_nat (junk_len b) # js], wleft := wleft (inner oc) - 1\<rparr>\<rparr>)"
proof -
  obtain js where js: "junk (junk_len b) = Some js" "length js = junk_len b"
    using assms(1) by (rule fillsE)
  with assms that [OF js] show ?thesis
    by (simp add: WriteJunk_def Let_def del: One_nat_def)
qed

lemma read_junk_stream:
  assumes "clean (rx (inner oc))" and "\<not> closed (inner oc)"
    and "stream (rx (inner oc)) = h # body" and "unat h \<le> length body"
  obtains r where "ReadJunk oc = (None, oc\<lparr>inner := (inner oc)\<lparr>rx := r\<rparr>\<rparr>)"
    and "clean r" and "stream r = drop (unat h) body"
proof -
  let ?c = "inner oc"
  obtain r1 where r1: "read_full 1 ?c = (Some [h], ?c\<lparr>rx := r1\<rparr>)" "clean r1" "stream r1 = body"
    using read_full_enough [OF assms(1,2), of 1] assms(3) by auto
  show ?thesis
  proof (cases "unat h = 0")
    case True
    with r1 that [of r1] show ?thesis by (simp add: ReadJunk_def)
  next
    case False
    obtain r2 where "read_full (unat h) (?c\<lparr>rx := r1\<rparr>) = (Some (take (unat h) body), ?c\<lparr>rx := r2\<rparr>)"
      and "clean r2" and "stream r2 = drop (unat h) body"
      using read_full_enough [of "?c\<lparr>rx := r1\<rparr>" "unat h"] r1 assms(2,4) by auto
    with False r1 that [of r2] show ?thesis by (simp add: ReadJunk_def)
  qed
qed

lemma read_junk_tx: "ReadJunk oc = (e, oc') \<Longrightarrow> tx (inner oc') = tx (inner oc)"
  by (auto simp: ReadJunk_def Let_def split: prod.splits option.splits if_splits
      dest!: read_full_tx)

lemma junk_message_leftover:
  assumes "j (junk_len b) = Some ks" and "length ks = junk_len b"
  shows "drop (unat (of_nat (junk_len b) :: byte)) (ks @ app)
      = (if b = 255 then the (j 256) else []) @ app"
    and "unat (of_nat (junk_len b) :: byte) \<le> length (ks @ app)"
proof -
  show "drop (unat (of_nat (junk_len b) :: byte)) (ks @ app)
      = (if b = 255 then the (j 256) else []) @ app"
    using assms by (cases "b = 255") (simp_all add: unat_junk_header, simp add: junk_len_def)
  show "unat (of_nat (junk_len b) :: byte) \<le> length (ks @ app)"
    using assms by (auto simp: unat_junk_header)
qed

subsection \<open>Properties\<close>

text \<open>
  C34. The bidirectional junk exchange. When each side receives, in any pieces, exactly the bytes
  the other side wrote in the handshake followed by application data, both handshakes succeed;
  and what each side then has left to read is the application data alone if the size byte its
  peer drew is not 255. With 255 the length byte wraps to 0, the reader skips nothing, and the
  256 junk bytes come in front of the application data.
\<close>

theorem junk_handshake_leftover:
  assumes "fills jc" and "fills js"
    and "clean (rx c)" and "\<not> closed c" and "0 < wleft c" and "tx c = []"
    and "clean (rx s)" and "\<not> closed s" and "0 < wleft s" and "tx s = []"
    and "stream (rx c) = concat (tx (snd (PerformServerHandshake (Some bs) js s))) @ app_s"
    and "stream (rx s) = concat (tx (snd (PerformClientHandshake (Some bc) jc c))) @ app_c"
  shows "(\<exists>oc. fst (PerformClientHandshake (Some bc) jc c) = Inr oc
        \<and> stream (rx (inner oc)) = (if bs = 255 then the (js 256) else []) @ app_s)
    \<and> (\<exists>os. fst (PerformServerHandshake (Some bs) js s) = Inr os
        \<and> stream (rx (inner os)) = (if bc = 255 then the (jc 256) else []) @ app_c)"
proof -
  obtain kc where kc: "jc (junk_len bc) = Some kc" "length kc = junk_len bc"
    and wc: "WriteJunk (Some bc) jc (NewObfuscatedConn c) = (None, (NewObfuscatedConn c)
      \<lparr>inner := c\<lparr>tx := [of_nat (junk_len bc) # kc], wleft := wleft c - 1\<rparr>\<rparr>)"
    using write_junk_ok [of jc "NewObfuscatedConn c" bc] assms(1,4,5,6)
    by (auto simp: NewObfuscatedConn_def)
  let ?oc1 = "(NewObfuscatedConn c)\<lparr>inner := c\<lparr>tx := [of_nat (junk_len bc) # kc], wleft := wleft c - 1\<rparr>\<rparr>"
  have txc: "tx (snd (PerformClientHandshake (Some bc) jc c)) = [of_nat (junk_len bc) # kc]"
    using wc by (auto simp: PerformClientHandshake_def Let_def dest!: read_junk_tx
        split: prod.splits option.splits)
  obtain r where r: "ReadJunk (NewObfuscatedConn s) = (None, (NewObfuscatedConn s)\<lparr>inner := s\<lparr>rx := r\<rparr>\<rparr>)"
    and rs: "clean r" "stream r = (if bc = 255 then the (jc 256) else []) @ app_c"
    using read_junk_stream [of "NewObfuscatedConn s" "of_nat (junk_len bc)" "kc @ app_c"]
      assms(7,8,12) txc kc junk_message_leftover [of jc bc kc, OF kc]
    by (auto simp: NewObfuscatedConn_def)
  obtain ks where ks: "js (junk_len bs) = Some ks" "length ks = junk_len bs"
    and ws: "WriteJunk (Some bs) js ((NewObfuscatedConn s)\<lparr>inner := s\<lparr>rx := r\<rparr>\<rparr>)
      = (None, (NewObfuscatedConn s)
          \<lparr>inner := s\<lparr>rx := r, tx := [of_nat (junk_len bs) # ks], wleft := wleft s - 1\<rparr>\<rparr>)"
    using write_junk_ok [of js "(NewObfuscatedConn s)\<lparr>inner := s\<lparr>rx := r\<rparr>\<rparr>" bs] assms(2,8,9,10)
    by auto
  have server: "PerformServerHandshake (Some bs) js s =
      (Inr ((NewObfuscatedConn s)
         \<lparr>inner := s\<lparr>rx := r, tx := [of_nat (junk_len bs) # ks], wleft := wleft s - 1\<rparr>\<rparr>),
       s\<lparr>rx := r, tx := [of_nat (junk_len bs) # ks], wleft := wleft s - 1\<rparr>)"
    by (simp add: PerformServerHandshake_def Let_def r ws)
  obtain q where q: "ReadJunk ?oc1 = (None, ?oc1\<lparr>inner := (inner ?oc1)\<lparr>rx := q\<rparr>\<rparr>)"
    and qs: "clean q" "stream q = (if bs = 255 then the (js 256) else []) @ app_s"
    using read_junk_stream [of ?oc1 "of_nat (junk_len bs)" "ks @ app_s"]
      assms(3,4,11) server ks junk_message_leftover [of js bs ks, OF ks]
    by auto
  show ?thesis using q qs rs server wc by (simp add: PerformClientHandshake_def Let_def)
qed

lemma junk_handshake_leftover_witness:
  "\<exists>os. fst (PerformServerHandshake (Some 1) (\<lambda>n. Some (replicate n 0))
        (new_conn [Seg [0], Seg (replicate 256 7), Seg [42]] 1)) = Inr os
     \<and> stream (rx (inner os)) = replicate 256 7 @ [42]"
proof -
  define jc :: "nat \<Rightarrow> bytes option" where "jc = (\<lambda>n. Some (replicate n 7))"
  define js :: "nat \<Rightarrow> bytes option" where "js = (\<lambda>n. Some (replicate n 0))"
  define s where "s = new_conn [Seg [0], Seg (replicate 256 7), Seg [42]] 1"
  define c where "c = new_conn [Seg [2, 0, 0], Seg [9]] 1"
  have fills: "fills jc" "fills js" by (auto simp: fills_def jc_def js_def)
  have rs: "ReadJunk (NewObfuscatedConn s) = (None, (NewObfuscatedConn s)
      \<lparr>inner := s\<lparr>rx := [Seg (replicate 256 7), Seg [42]]\<rparr>\<rparr>)"
    by (simp add: ReadJunk_def s_def new_conn_def NewObfuscatedConn_def read_full_def
        ev_read_full_Seg)
  have "tx (snd (PerformServerHandshake (Some 1) js s)) = [[2, 0, 0]]"
    by (simp add: PerformServerHandshake_def rs WriteJunk_def js_def MaxJunkSize_def)
      (simp add: s_def new_conn_def NewObfuscatedConn_def)
  moreover have wc: "WriteJunk (Some 255) jc (NewObfuscatedConn c) = (None, (NewObfuscatedConn c)
      \<lparr>inner := c\<lparr>tx := [0 # replicate 256 7], wleft := 0\<rparr>\<rparr>)"
    by (simp add: WriteJunk_def jc_def c_def new_conn_def NewObfuscatedConn_def MaxJunkSize_def)
  then have "tx (snd (PerformClientHandshake (Some 255) jc c)) = [0 # replicate 256 7]"
    by (auto simp: PerformClientHandshake_def Let_def dest!: read_junk_tx
        split: prod.splits option.splits)
  ultimately have
    "stream (rx c) = concat (tx (snd (PerformServerHandshake (Some 1) js s))) @ [9]"
    "stream (rx s) = concat (tx (snd (PerformClientHandshake (Some 255) jc c))) @ [42]"
    by (simp_all add: c_def s_def new_conn_def)
  from junk_handshake_leftover [OF fills _ _ _ _ _ _ _ _ this]
  show ?thesis by (simp add: c_def s_def new_conn_def jc_def js_def)
qed

end
