(* ===== verification/Go_Std.thy ===== *)
theory Go_Std
  imports Prelude
begin

text \<open>
  The parts of Go's standard library the program computes with: \<^verbatim>\<open>strconv\<close> (\<open>Itoa\<close> as \<^verbatim>\<open>%d\<close>
  prints it, \<open>Atoi\<close>, \<open>ParseBool\<close>), \<^verbatim>\<open>strings.TrimSpace\<close>, \<^verbatim>\<open>bytes.SplitN\<close> with two parts,
  \<^verbatim>\<open>encoding/hex\<close>, big-endian \<^verbatim>\<open>uint16\<close> and \<^verbatim>\<open>crypto/hmac\<close> over \<^verbatim>\<open>crypto/sha256\<close>.
  These definitions carry no line of the repository; they are what its code calls.
\<close>

unbundle bit_operations_syntax

subsection \<open>strconv: decimal numbers\<close>

definition digit :: "int \<Rightarrow> char" where
  "digit d = char_of (48 + d)"

definition digit_val :: "char \<Rightarrow> int" where
  "digit_val c = of_char c - 48"

definition is_digit :: "char \<Rightarrow> bool" where
  "is_digit c \<longleftrightarrow> 0 \<le> digit_val c \<and> digit_val c \<le> 9"

function show_digits :: "int \<Rightarrow> string" where
  "show_digits n = (if n < 10 then [digit n] else show_digits (n div 10) @ [digit (n mod 10)])"
  by pat_completeness auto
termination
  by (relation "measure nat") auto

declare show_digits.simps [simp del]

definition itoa :: "int \<Rightarrow> string" where
  "itoa i = (if i < 0 then ''-'' @ show_digits (- i) else show_digits i)"

definition digits_val :: "string \<Rightarrow> int" where
  "digits_val s = foldl (\<lambda>n c. 10 * n + digit_val c) 0 s"

text \<open>\<open>Atoi\<close>: the value and whether the error is nil; a value out of range is clamped.\<close>

definition atoi :: "string \<Rightarrow> int \<times> bool" where
  "atoi s =
     (let (neg, ds) = (case s of [] \<Rightarrow> (False, [])
                        | c # r \<Rightarrow> if c = CHR ''-'' then (True, r)
                                    else if c = CHR ''+'' then (False, r) else (False, s))
      in if ds = [] \<or> \<not> list_all is_digit ds then (0, False)
         else let v = (if neg then - digits_val ds else digits_val ds)
              in if v < min_int64 then (min_int64, False)
                 else if max_int64 < v then (max_int64, False) else (v, True))"

lemma digit_val_digit [simp]: "0 \<le> d \<Longrightarrow> d < 10 \<Longrightarrow> digit_val (digit d) = d"
  by (simp add: digit_def digit_val_def)

lemma is_digit_digit [simp]: "0 \<le> d \<Longrightarrow> d < 10 \<Longrightarrow> is_digit (digit d)"
  by (simp add: is_digit_def)

lemma digits_val_append [simp]: "digits_val (s @ [c]) = 10 * digits_val s + digit_val c"
  by (simp add: digits_val_def)

lemma digits_val_show_digits [simp]: "0 \<le> n \<Longrightarrow> digits_val (show_digits n) = n"
proof (induction n rule: show_digits.induct)
  case (1 n)
  show ?case
  proof (cases "n < 10")
    case True
    with "1.prems" show ?thesis by (subst show_digits.simps) (simp add: digits_val_def)
  next
    case False
    with "1.IH" show ?thesis by (subst show_digits.simps) simp
  qed
qed

lemma digits_show_digits [simp]: "0 \<le> n \<Longrightarrow> list_all is_digit (show_digits n)"
proof (induction n rule: show_digits.induct)
  case (1 n)
  then show ?case by (subst show_digits.simps) simp
qed

lemma show_digits_not_Nil [simp]: "show_digits n \<noteq> []"
  by (subst show_digits.simps) simp

lemma show_digits_chars: "0 \<le> n \<Longrightarrow> c \<in> set (show_digits n) \<Longrightarrow> is_digit c"
  using digits_show_digits [of n] by (simp add: list_all_iff)

lemma itoa_not_Nil [simp]: "itoa i \<noteq> []"
  by (simp add: itoa_def)

lemma itoa_chars: "c \<in> set (itoa i) \<Longrightarrow> is_digit c \<or> c = CHR ''-''"
  by (auto simp: itoa_def dest: show_digits_chars [rotated] split: if_splits)

lemma not_digit_sign [simp]: "\<not> is_digit CHR ''-''" "\<not> is_digit CHR ''+''"
  by (simp_all add: is_digit_def digit_val_def)

lemma atoi_itoa:
  assumes "min_int64 \<le> i" and "i \<le> max_int64"
  shows "atoi (itoa i) = (i, True)"
proof (cases "i < 0")
  case True
  with assms show ?thesis by (simp add: atoi_def itoa_def Let_def)
next
  case False
  obtain c r where cr: "show_digits i = c # r" by (cases "show_digits i") auto
  have "is_digit c" using show_digits_chars [of i c] cr False by simp
  then have "c \<noteq> CHR ''-''" and "c \<noteq> CHR ''+''" by auto
  with False assms cr show ?thesis
    using digits_val_show_digits [of i] digits_show_digits [of i]
    by (simp add: atoi_def itoa_def Let_def)
qed

subsection \<open>strconv.ParseBool\<close>

definition parse_bool :: "string \<Rightarrow> bool option" where
  "parse_bool s =
     (if s \<in> set [''1'', ''t'', ''T'', ''true'', ''TRUE'', ''True''] then Some True
      else if s \<in> set [''0'', ''f'', ''F'', ''false'', ''FALSE'', ''False''] then Some False
      else None)"

subsection \<open>strings.TrimSpace\<close>

text \<open>The UTF-8 encodings of the code points with Unicode's White\_Space property.\<close>

definition space_encodings :: "bytes list" where
  "space_encodings =
     [[9], [10], [11], [12], [13], [32], [0xC2, 0x85], [0xC2, 0xA0], [0xE1, 0x9A, 0x80],
      [0xE2, 0x80, 0x80], [0xE2, 0x80, 0x81], [0xE2, 0x80, 0x82], [0xE2, 0x80, 0x83],
      [0xE2, 0x80, 0x84], [0xE2, 0x80, 0x85], [0xE2, 0x80, 0x86], [0xE2, 0x80, 0x87],
      [0xE2, 0x80, 0x88], [0xE2, 0x80, 0x89], [0xE2, 0x80, 0x8A], [0xE2, 0x80, 0xA8],
      [0xE2, 0x80, 0xA9], [0xE2, 0x80, 0xAF], [0xE2, 0x81, 0x9F], [0xE3, 0x80, 0x80]]"

fun strip_one :: "bytes list \<Rightarrow> bytes \<Rightarrow> bytes option" where
  "strip_one [] s = None"
| "strip_one (e # es) s =
     (if e \<noteq> [] \<and> take (length e) s = e then Some (drop (length e) s) else strip_one es s)"

lemma strip_one_shorter: "strip_one es s = Some r \<Longrightarrow> length r < length s"
proof (induction es)
  case (Cons e es)
  then show ?case
    by (cases "e \<noteq> [] \<and> take (length e) s = e") (cases s; cases e; auto)+
qed simp

function trim_left :: "bytes list \<Rightarrow> bytes \<Rightarrow> bytes" where
  "trim_left es s = (case strip_one es s of None \<Rightarrow> s | Some r \<Rightarrow> trim_left es r)"
  by pat_completeness auto
termination
  by (relation "measure (\<lambda>(es, s). length s)") (auto dest: strip_one_shorter)

declare trim_left.simps [simp del]

definition trim_space :: "bytes \<Rightarrow> bytes" where
  "trim_space s =
     rev (trim_left (map rev space_encodings) (rev (trim_left space_encodings s)))"

subsection \<open>bytes.SplitN with separator \<^verbatim>\<open>:\<close> and two parts\<close>

definition colon :: byte where
  "colon = 58"

text \<open>\<open>split_colon\<close> is None when there is one part only.\<close>

fun split_colon :: "bytes \<Rightarrow> (bytes \<times> bytes) option" where
  "split_colon [] = None"
| "split_colon (b # bs) =
     (if b = colon then Some ([], bs)
      else map_option (\<lambda>(l, r). (b # l, r)) (split_colon bs))"

lemma split_colon_append: "colon \<notin> set l \<Longrightarrow> split_colon (l @ colon # r) = Some (l, r)"
  by (induction l) auto

lemma split_colon_Some: "split_colon bs = Some (l, r) \<Longrightarrow> bs = l @ colon # r \<and> colon \<notin> set l"
  by (induction bs arbitrary: l) (auto split: if_splits)

lemma split_colon_None: "split_colon bs = None \<longleftrightarrow> colon \<notin> set bs"
  by (induction bs) auto

subsection \<open>encoding/hex\<close>

definition hextable :: bytes where
  "hextable = str_bytes ''0123456789abcdef''"

definition hex_encode :: "bytes \<Rightarrow> bytes" where
  "hex_encode bs =
     concat (map (\<lambda>b. [hextable ! unat (drop_bit 4 b), hextable ! unat (b AND 15)]) bs)"

lemma length_hex_encode [simp]: "length (hex_encode bs) = 2 * length bs"
  by (induction bs) (simp_all add: hex_encode_def)

lemma hextable_inj: "i < 16 \<Longrightarrow> j < 16 \<Longrightarrow> (hextable ! i = hextable ! j) = (i = j)"
  by (rule nth_eq_iff_index_eq) (simp_all add: hextable_def str_bytes_def)

lemma nibbles:
  fixes b :: byte
  shows "unat (drop_bit 4 b) = unat b div 16" and "unat (b AND 15) = unat b mod 16"
proof -
  show "unat (drop_bit 4 b) = unat b div 16"
    by (simp add: drop_bit_eq_div unat_div)
  have "b AND 15 = take_bit 4 b" by (simp add: take_bit_eq_mask mask_eq_exp_minus_1)
  then show "unat (b AND 15) = unat b mod 16"
    by (simp add: take_bit_eq_mod unat_mod)
qed

lemma hex_encode_inject [simp]: "(hex_encode xs = hex_encode ys) = (xs = ys)"
proof
  assume "hex_encode xs = hex_encode ys"
  then show "xs = ys"
  proof (induction xs arbitrary: ys)
    case Nil
    then have "length (hex_encode ys) = 0" by (simp add: hex_encode_def)
    then show ?case by simp
  next
    case (Cons x xs)
    then have "length (hex_encode ys) = length (hex_encode (x # xs))" by simp
    then obtain y ys' where ys: "ys = y # ys'" by (cases ys) auto
    have lt: "unat x div 16 < 16" "unat y div 16 < 16"
      using unat_byte_less [of x] unat_byte_less [of y] by linarith+
    have "unat x div 16 = unat y div 16" and "unat x mod 16 = unat y mod 16"
      and "hex_encode xs = hex_encode ys'"
      using Cons.prems ys lt by (simp_all add: hex_encode_def nibbles hextable_inj)
    then have "unat x = unat y" by (metis mult_div_mod_eq)
    then show ?case using Cons.IH [of ys'] \<open>hex_encode xs = hex_encode ys'\<close> ys
      by (simp add: word_unat_eq_iff)
  qed
qed simp

subsection \<open>encoding/binary: big-endian 16 bits\<close>

definition put_uint16 :: "16 word \<Rightarrow> bytes" where
  "put_uint16 w = [ucast (drop_bit 8 w), ucast w]"

definition get_uint16 :: "bytes \<Rightarrow> 16 word" where
  "get_uint16 bs = push_bit 8 (ucast (bs ! 0)) OR ucast (bs ! 1)"

lemma length_put_uint16 [simp]: "length (put_uint16 w) = 2"
  by (simp add: put_uint16_def)

lemma get_put_uint16 [simp]: "get_uint16 (put_uint16 w) = w"
  by (rule bit_word_eqI)
    (auto simp: get_uint16_def put_uint16_def bit_simps not_less)

end
