(* ===== verification/Json.thy ===== *)
theory Json
  imports Go_Std
begin

text \<open>
  JSON values, and how Go's \<^verbatim>\<open>encoding/json\<close> stores a value into a struct field. The boundary of the
  model is the value: the text syntax of JSON (scanning, escapes, indentation) is not modelled.
  A number is \<open>JInt\<close> when its literal is an integer, which is what an \<^verbatim>\<open>int\<close> field accepts,
  and \<open>JFrac\<close> otherwise.
\<close>

datatype json =
    JNull | JBool bool | JInt int | JFrac | JStr string
  | JArr "json list" | JObj "(string \<times> json) list"

text \<open>Each store returns the field's new value, and None for a type error.\<close>

fun store_string :: "json \<Rightarrow> string \<Rightarrow> string option" where
  "store_string JNull old = Some old"
| "store_string (JStr s) old = Some s"
| "store_string _ old = None"

fun store_bool :: "json \<Rightarrow> bool \<Rightarrow> bool option" where
  "store_bool JNull old = Some old"
| "store_bool (JBool b) old = Some b"
| "store_bool _ old = None"

fun store_int :: "json \<Rightarrow> int \<Rightarrow> int option" where
  "store_int JNull old = Some old"
| "store_int (JInt i) old = (if min_int64 \<le> i \<and> i \<le> max_int64 then Some i else None)"
| "store_int _ old = None"

text \<open>A slice: the nil slice and an empty one are both \<open>[]\<close>; \<open>el\<close> decodes one element.\<close>

fun store_list :: "(json \<Rightarrow> 'a option) \<Rightarrow> json \<Rightarrow> 'a list \<Rightarrow> 'a list option" where
  "store_list el JNull old = Some []"
| "store_list el (JArr js) old = those (map el js)"
| "store_list el _ old = None"

text \<open>
  A struct: every key that names a field, exactly or up to the simple case folding of Go's
  decoder, is stored; other keys are ignored; later keys overwrite earlier ones. \<open>set k j x\<close>
  stores value \<open>j\<close> into the field whose JSON name is \<open>k\<close>. One type error anywhere makes the whole
  decoding fail.
\<close>

text \<open>ASCII letters and the two other code points that fold to one (U+017F and U+212A).\<close>

fun fold_name :: "bytes \<Rightarrow> bytes" where
  "fold_name (a # b # c # r) =
     (if a = 0xE2 \<and> b = 0x84 \<and> c = 0xAA then 0x6B # fold_name r
      else if a = 0xC5 \<and> b = 0xBF then 0x73 # fold_name (c # r)
      else (if 0x41 \<le> a \<and> a \<le> 0x5A then a + 0x20 else a) # fold_name (b # c # r))"
| "fold_name [a, b] =
     (if a = 0xC5 \<and> b = 0xBF then [0x73]
      else (if 0x41 \<le> a \<and> a \<le> 0x5A then a + 0x20 else a) # fold_name [b])"
| "fold_name [a] = [if 0x41 \<le> a \<and> a \<le> 0x5A then a + 0x20 else a]"
| "fold_name [] = []"

definition field_named :: "string list \<Rightarrow> string \<Rightarrow> string option" where
  "field_named names k =
     (if k \<in> set names then Some k
      else find (\<lambda>n. fold_name (str_bytes n) = fold_name (str_bytes k)) names)"

fun store_fields ::
    "string list \<Rightarrow> (string \<Rightarrow> json \<Rightarrow> 'a \<Rightarrow> 'a option) \<Rightarrow> (string \<times> json) list \<Rightarrow> 'a \<Rightarrow> 'a option" where
  "store_fields names put [] x = Some x"
| "store_fields names put ((k, j) # kvs) x =
     (case field_named names k of
        None \<Rightarrow> store_fields names put kvs x
      | Some n \<Rightarrow>
        (case put n j x of None \<Rightarrow> None | Some x' \<Rightarrow> store_fields names put kvs x'))"

fun store_struct ::
    "string list \<Rightarrow> (string \<Rightarrow> json \<Rightarrow> 'a \<Rightarrow> 'a option) \<Rightarrow> json \<Rightarrow> 'a \<Rightarrow> 'a option" where
  "store_struct names put JNull x = Some x"
| "store_struct names put (JObj kvs) x = store_fields names put kvs x"
| "store_struct names put _ x = None"

lemma field_named_exact [simp]: "k \<in> set names \<Longrightarrow> field_named names k = Some k"
  by (simp add: field_named_def)

lemma those_map_Some: "(\<And>x. x \<in> set xs \<Longrightarrow> g x = Some x) \<Longrightarrow> those (map g xs) = Some xs"
  by (induction xs) auto

end
