(* ===== verification/Config.thy ===== *)
theory Config
  imports Json
begin

text \<open>
  \<^verbatim>\<open>pkg/config/config.go\<close>: the two configuration records, their defaults, environment overrides and
  validation, and loading and saving. The file system and the environment are arguments: a path's
  state is a \<open>file_state\<close>, and \<open>env\<close> is \<^verbatim>\<open>os.Getenv\<close>, which gives the empty string for an
  unset variable. A field that both records have carries the prefix \<open>c_\<close> in the client's.
\<close>

record ClientItem =
  ClientID :: string
  Ports :: "int list"

record ServerConfig =
  ControlAddr :: string
  Token :: string
  LogLevel :: string
  DashboardAddr :: string
  EnableObfuscation :: bool
  DynamicPortMin :: int
  DynamicPortMax :: int
  Clients :: "ClientItem list"
  TLSCertFile :: string
  TLSKeyFile :: string
  AutoTLSDomain :: string
  WebhookURL :: string

record ClientConfig =
  ServerAddr :: string
  c_ClientID :: string
  c_Token :: string
  LocalTarget :: string
  c_EnableObfuscation :: bool
  c_LogLevel :: string
  TLSCACertFile :: string
  c_TLSCertFile :: string
  c_TLSKeyFile :: string
  TLSInsecureSkipVerify :: bool

definition zero_item :: ClientItem where
  "zero_item = \<lparr>ClientID = [], Ports = []\<rparr>"

definition zero_server :: ServerConfig where
  "zero_server = \<lparr>ControlAddr = [], Token = [], LogLevel = [], DashboardAddr = [],
     EnableObfuscation = False, DynamicPortMin = 0, DynamicPortMax = 0, Clients = [],
     TLSCertFile = [], TLSKeyFile = [], AutoTLSDomain = [], WebhookURL = []\<rparr>"

definition zero_client :: ClientConfig where
  "zero_client = \<lparr>ServerAddr = [], c_ClientID = [], c_Token = [], LocalTarget = [],
     c_EnableObfuscation = False, c_LogLevel = [], TLSCACertFile = [], c_TLSCertFile = [],
     c_TLSKeyFile = [], TLSInsecureSkipVerify = False\<rparr>"

subsection \<open>Defaults, environment, validation\<close>

definition SetServerDefaults :: "ServerConfig \<Rightarrow> ServerConfig" where
  "SetServerDefaults cfg =
     (let cfg = (if ControlAddr cfg = [] then cfg\<lparr>ControlAddr := '':7000''\<rparr> else cfg);
          cfg = (if LogLevel cfg = [] then cfg\<lparr>LogLevel := ''info''\<rparr> else cfg);
          cfg = (if DynamicPortMin cfg \<le> 0 then cfg\<lparr>DynamicPortMin := 40000\<rparr> else cfg);
          cfg = (if DynamicPortMax cfg \<le> 0 then cfg\<lparr>DynamicPortMax := 50000\<rparr> else cfg)
      in cfg)"

definition SetClientDefaults :: "ClientConfig \<Rightarrow> ClientConfig" where
  "SetClientDefaults cfg =
     (let cfg = (if ServerAddr cfg = [] then cfg\<lparr>ServerAddr := ''127.0.0.1:7000''\<rparr> else cfg);
          cfg = (if LocalTarget cfg = [] then cfg\<lparr>LocalTarget := ''127.0.0.1:8080''\<rparr> else cfg);
          cfg = (if c_LogLevel cfg = [] then cfg\<lparr>c_LogLevel := ''info''\<rparr> else cfg)
      in cfg)"

datatype invalid =
  EmptyToken | NoControlAddr | PortRange | EmptyClientID | NoServerAddr

definition ValidateServerConfig :: "ServerConfig \<Rightarrow> invalid option" where
  "ValidateServerConfig cfg =
     (if Token cfg = [] then Some EmptyToken
      else if ControlAddr cfg = [] then Some NoControlAddr
      else if DynamicPortMax cfg < DynamicPortMin cfg then Some PortRange
      else None)"

definition ValidateClientConfig :: "ClientConfig \<Rightarrow> invalid option" where
  "ValidateClientConfig cfg =
     (if c_ClientID cfg = [] then Some EmptyClientID
      else if c_Token cfg = [] then Some EmptyToken
      else if ServerAddr cfg = [] then Some NoServerAddr
      else None)"

definition env_obfuscation :: "(string \<Rightarrow> string) \<Rightarrow> bool \<Rightarrow> bool" where
  "env_obfuscation env old =
     (if env ''TUNNEL_OBFUSCATION'' = [] then old
      else case parse_bool (env ''TUNNEL_OBFUSCATION'') of None \<Rightarrow> old | Some parsed \<Rightarrow> parsed)"

definition ApplyServerEnvOverrides :: "(string \<Rightarrow> string) \<Rightarrow> ServerConfig \<Rightarrow> ServerConfig" where
  "ApplyServerEnvOverrides env cfg =
     (let cfg = (let val = env ''TUNNEL_SERVER_ADDR'' in
                 if val \<noteq> [] then cfg\<lparr>ControlAddr := val\<rparr> else cfg);
          cfg = (let val = env ''TUNNEL_TOKEN'' in
                 if val \<noteq> [] then cfg\<lparr>Token := val\<rparr> else cfg);
          cfg = (let val = env ''TUNNEL_DASHBOARD_ADDR'' in
                 if val \<noteq> [] then cfg\<lparr>DashboardAddr := val\<rparr> else cfg);
          cfg = cfg\<lparr>EnableObfuscation := env_obfuscation env (EnableObfuscation cfg)\<rparr>;
          cfg = (let val = env ''TUNNEL_WEBHOOK_URL'' in
                 if val \<noteq> [] then cfg\<lparr>WebhookURL := val\<rparr> else cfg)
      in cfg)"

definition ApplyClientEnvOverrides :: "(string \<Rightarrow> string) \<Rightarrow> ClientConfig \<Rightarrow> ClientConfig" where
  "ApplyClientEnvOverrides env cfg =
     (let cfg = (let val = env ''TUNNEL_SERVER_TARGET'' in
                 if val \<noteq> [] then cfg\<lparr>ServerAddr := val\<rparr> else cfg);
          cfg = (let val = env ''TUNNEL_CLIENT_ID'' in
                 if val \<noteq> [] then cfg\<lparr>c_ClientID := val\<rparr> else cfg);
          cfg = (let val = env ''TUNNEL_TOKEN'' in
                 if val \<noteq> [] then cfg\<lparr>c_Token := val\<rparr> else cfg);
          cfg = (let val = env ''TUNNEL_LOCAL_TARGET'' in
                 if val \<noteq> [] then cfg\<lparr>LocalTarget := val\<rparr> else cfg);
          cfg = cfg\<lparr>c_EnableObfuscation := env_obfuscation env (c_EnableObfuscation cfg)\<rparr>
      in cfg)"

subsection \<open>The JSON schema of the struct tags\<close>

definition item_fields :: "string list" where
  "item_fields = [''client_id'', ''ports'']"

definition item_put :: "string \<Rightarrow> json \<Rightarrow> ClientItem \<Rightarrow> ClientItem option" where
  "item_put k j x =
     (if k = ''client_id'' then map_option (\<lambda>v. x\<lparr>ClientID := v\<rparr>) (store_string j (ClientID x))
      else map_option (\<lambda>v. x\<lparr>Ports := v\<rparr>) (store_list (\<lambda>e. store_int e 0) j (Ports x)))"

definition decode_item :: "json \<Rightarrow> ClientItem option" where
  "decode_item j = store_struct item_fields item_put j zero_item"

definition server_fields :: "string list" where
  "server_fields =
     [''control_addr'', ''token'', ''log_level'', ''dashboard_addr'', ''enable_obfuscation'',
      ''dynamic_port_min'', ''dynamic_port_max'', ''clients'', ''tls_cert_file'', ''tls_key_file'',
      ''auto_tls_domain'', ''webhook_url'']"

definition server_put :: "string \<Rightarrow> json \<Rightarrow> ServerConfig \<Rightarrow> ServerConfig option" where
  "server_put k j x =
     (if k = ''control_addr'' then map_option (\<lambda>v. x\<lparr>ControlAddr := v\<rparr>) (store_string j (ControlAddr x))
      else if k = ''token'' then map_option (\<lambda>v. x\<lparr>Token := v\<rparr>) (store_string j (Token x))
      else if k = ''log_level'' then map_option (\<lambda>v. x\<lparr>LogLevel := v\<rparr>) (store_string j (LogLevel x))
      else if k = ''dashboard_addr''
        then map_option (\<lambda>v. x\<lparr>DashboardAddr := v\<rparr>) (store_string j (DashboardAddr x))
      else if k = ''enable_obfuscation''
        then map_option (\<lambda>v. x\<lparr>EnableObfuscation := v\<rparr>) (store_bool j (EnableObfuscation x))
      else if k = ''dynamic_port_min''
        then map_option (\<lambda>v. x\<lparr>DynamicPortMin := v\<rparr>) (store_int j (DynamicPortMin x))
      else if k = ''dynamic_port_max''
        then map_option (\<lambda>v. x\<lparr>DynamicPortMax := v\<rparr>) (store_int j (DynamicPortMax x))
      else if k = ''clients''
        then map_option (\<lambda>v. x\<lparr>Clients := v\<rparr>) (store_list decode_item j (Clients x))
      else if k = ''tls_cert_file''
        then map_option (\<lambda>v. x\<lparr>TLSCertFile := v\<rparr>) (store_string j (TLSCertFile x))
      else if k = ''tls_key_file''
        then map_option (\<lambda>v. x\<lparr>TLSKeyFile := v\<rparr>) (store_string j (TLSKeyFile x))
      else if k = ''auto_tls_domain''
        then map_option (\<lambda>v. x\<lparr>AutoTLSDomain := v\<rparr>) (store_string j (AutoTLSDomain x))
      else map_option (\<lambda>v. x\<lparr>WebhookURL := v\<rparr>) (store_string j (WebhookURL x)))"

definition client_fields :: "string list" where
  "client_fields =
     [''server_addr'', ''client_id'', ''token'', ''local_target'', ''enable_obfuscation'',
      ''log_level'', ''tls_ca_cert_file'', ''tls_cert_file'', ''tls_key_file'',
      ''tls_insecure_skip_verify'']"

definition client_put :: "string \<Rightarrow> json \<Rightarrow> ClientConfig \<Rightarrow> ClientConfig option" where
  "client_put k j x =
     (if k = ''server_addr'' then map_option (\<lambda>v. x\<lparr>ServerAddr := v\<rparr>) (store_string j (ServerAddr x))
      else if k = ''client_id'' then map_option (\<lambda>v. x\<lparr>c_ClientID := v\<rparr>) (store_string j (c_ClientID x))
      else if k = ''token'' then map_option (\<lambda>v. x\<lparr>c_Token := v\<rparr>) (store_string j (c_Token x))
      else if k = ''local_target''
        then map_option (\<lambda>v. x\<lparr>LocalTarget := v\<rparr>) (store_string j (LocalTarget x))
      else if k = ''enable_obfuscation''
        then map_option (\<lambda>v. x\<lparr>c_EnableObfuscation := v\<rparr>) (store_bool j (c_EnableObfuscation x))
      else if k = ''log_level'' then map_option (\<lambda>v. x\<lparr>c_LogLevel := v\<rparr>) (store_string j (c_LogLevel x))
      else if k = ''tls_ca_cert_file''
        then map_option (\<lambda>v. x\<lparr>TLSCACertFile := v\<rparr>) (store_string j (TLSCACertFile x))
      else if k = ''tls_cert_file''
        then map_option (\<lambda>v. x\<lparr>c_TLSCertFile := v\<rparr>) (store_string j (c_TLSCertFile x))
      else if k = ''tls_key_file''
        then map_option (\<lambda>v. x\<lparr>c_TLSKeyFile := v\<rparr>) (store_string j (c_TLSKeyFile x))
      else map_option (\<lambda>v. x\<lparr>TLSInsecureSkipVerify := v\<rparr>) (store_bool j (TLSInsecureSkipVerify x)))"

text \<open>Encoding writes the fields in declaration order; the nil slice is \<^verbatim>\<open>null\<close>.\<close>

definition encode_list :: "('a \<Rightarrow> json) \<Rightarrow> 'a list \<Rightarrow> json" where
  "encode_list f xs = (if xs = [] then JNull else JArr (map f xs))"

definition encode_item :: "ClientItem \<Rightarrow> json" where
  "encode_item x = JObj [(''client_id'', JStr (ClientID x)), (''ports'', encode_list JInt (Ports x))]"

definition encode_server :: "ServerConfig \<Rightarrow> json" where
  "encode_server x = JObj
     [(''control_addr'', JStr (ControlAddr x)), (''token'', JStr (Token x)),
      (''log_level'', JStr (LogLevel x)), (''dashboard_addr'', JStr (DashboardAddr x)),
      (''enable_obfuscation'', JBool (EnableObfuscation x)),
      (''dynamic_port_min'', JInt (DynamicPortMin x)), (''dynamic_port_max'', JInt (DynamicPortMax x)),
      (''clients'', encode_list encode_item (Clients x)),
      (''tls_cert_file'', JStr (TLSCertFile x)), (''tls_key_file'', JStr (TLSKeyFile x)),
      (''auto_tls_domain'', JStr (AutoTLSDomain x)), (''webhook_url'', JStr (WebhookURL x))]"

definition encode_client :: "ClientConfig \<Rightarrow> json" where
  "encode_client x = JObj
     [(''server_addr'', JStr (ServerAddr x)), (''client_id'', JStr (c_ClientID x)),
      (''token'', JStr (c_Token x)), (''local_target'', JStr (LocalTarget x)),
      (''enable_obfuscation'', JBool (c_EnableObfuscation x)), (''log_level'', JStr (c_LogLevel x)),
      (''tls_ca_cert_file'', JStr (TLSCACertFile x)), (''tls_cert_file'', JStr (c_TLSCertFile x)),
      (''tls_key_file'', JStr (c_TLSKeyFile x)),
      (''tls_insecure_skip_verify'', JBool (TLSInsecureSkipVerify x))]"

subsection \<open>Loading and saving\<close>

text \<open>What a path holds: nothing, something that cannot be opened, a text that is not JSON, or a
  value (text after the first value is not read).\<close>

datatype file_state = NotExist | Unopenable | NotJson | Holds json

datatype config_error =
  NotFound | OpenFailed | ParseFailed | Invalid invalid | CreateFailed | EncodeFailed

definition LoadServerConfig ::
    "(string \<Rightarrow> file_state) \<Rightarrow> (string \<Rightarrow> string) \<Rightarrow> string \<Rightarrow> config_error + ServerConfig" where
  "LoadServerConfig fs env path =
     (case fs path of
        NotExist \<Rightarrow> Inl NotFound
      | Unopenable \<Rightarrow> Inl OpenFailed
      | NotJson \<Rightarrow> Inl ParseFailed
      | Holds j \<Rightarrow>
        (case store_struct server_fields server_put j zero_server of
           None \<Rightarrow> Inl ParseFailed
         | Some cfg \<Rightarrow>
           let cfg = ApplyServerEnvOverrides env (SetServerDefaults cfg) in
           (case ValidateServerConfig cfg of
              Some e \<Rightarrow> Inl (Invalid e)
            | None \<Rightarrow> Inr cfg)))"

definition LoadClientConfig ::
    "(string \<Rightarrow> file_state) \<Rightarrow> (string \<Rightarrow> string) \<Rightarrow> string \<Rightarrow> config_error + ClientConfig" where
  "LoadClientConfig fs env path =
     (case fs path of
        NotExist \<Rightarrow> Inl NotFound
      | Unopenable \<Rightarrow> Inl OpenFailed
      | NotJson \<Rightarrow> Inl ParseFailed
      | Holds j \<Rightarrow>
        (case store_struct client_fields client_put j zero_client of
           None \<Rightarrow> Inl ParseFailed
         | Some cfg \<Rightarrow>
           let cfg = ApplyClientEnvOverrides env (SetClientDefaults cfg) in
           (case ValidateClientConfig cfg of
              Some e \<Rightarrow> Inl (Invalid e)
            | None \<Rightarrow> Inr cfg)))"

text \<open>Saving: whether the file can be created and written is the environment's choice; creating
  truncates the file.\<close>

definition SaveServerConfig ::
    "bool \<Rightarrow> bool \<Rightarrow> string \<Rightarrow> ServerConfig \<Rightarrow> (string \<Rightarrow> file_state)
      \<Rightarrow> config_error option \<times> (string \<Rightarrow> file_state)" where
  "SaveServerConfig create_ok write_ok path cfg fs =
     (if \<not> create_ok then (Some CreateFailed, fs)
      else if \<not> write_ok then (Some EncodeFailed, fs(path := NotJson))
      else (None, fs(path := Holds (encode_server cfg))))"

definition SaveClientConfig ::
    "bool \<Rightarrow> bool \<Rightarrow> string \<Rightarrow> ClientConfig \<Rightarrow> (string \<Rightarrow> file_state)
      \<Rightarrow> config_error option \<times> (string \<Rightarrow> file_state)" where
  "SaveClientConfig create_ok write_ok path cfg fs =
     (if \<not> create_ok then (Some CreateFailed, fs)
      else if \<not> write_ok then (Some EncodeFailed, fs(path := NotJson))
      else (None, fs(path := Holds (encode_client cfg))))"

definition fmt_bool :: "bool \<Rightarrow> string" where
  "fmt_bool b = (if b then ''true'' else ''false'')"

definition SummaryString :: "ServerConfig \<Rightarrow> string" where
  "SummaryString cfg =
     ''ControlAddr: '' @ ControlAddr cfg @ [CHR 0x0A]
     @ ''DashboardAddr: '' @ DashboardAddr cfg @ [CHR 0x0A]
     @ ''Obfuscation: '' @ fmt_bool (EnableObfuscation cfg) @ [CHR 0x0A]
     @ ''Dynamic Ports Range: '' @ itoa (DynamicPortMin cfg) @ ''-'' @ itoa (DynamicPortMax cfg)
         @ [CHR 0x0A]
     @ ''Registered Clients Count: '' @ itoa (int (length (Clients cfg))) @ [CHR 0x0A]"

subsection \<open>Decoding what was encoded\<close>

definition int64_ok :: "int \<Rightarrow> bool" where
  "int64_ok i \<longleftrightarrow> min_int64 \<le> i \<and> i \<le> max_int64"

text \<open>The integers of a configuration value are Go integers.\<close>

definition server_ints_ok :: "ServerConfig \<Rightarrow> bool" where
  "server_ints_ok cfg \<longleftrightarrow> int64_ok (DynamicPortMin cfg) \<and> int64_ok (DynamicPortMax cfg)
     \<and> list_all (\<lambda>c. list_all int64_ok (Ports c)) (Clients cfg)"

lemma store_int_ok [simp]: "int64_ok i \<Longrightarrow> store_int (JInt i) old = Some i"
  by (simp add: int64_ok_def store_int.simps)

declare store_int.simps [simp del]

lemma store_encode_list:
  "(\<And>x. x \<in> set xs \<Longrightarrow> el (f x) = Some x) \<Longrightarrow> store_list el (encode_list f xs) old = Some xs"
  by (auto simp: encode_list_def those_map_Some)

lemma decode_encode_item:
  "list_all int64_ok (Ports x) \<Longrightarrow> decode_item (encode_item x) = Some x"
  by (simp add: decode_item_def encode_item_def item_fields_def item_put_def zero_item_def
      list_all_iff store_encode_list)

lemma decode_encode_server:
  "server_ints_ok cfg \<Longrightarrow>
     store_struct server_fields server_put (encode_server cfg) zero_server = Some cfg"
  by (simp add: encode_server_def server_fields_def server_put_def zero_server_def
      server_ints_ok_def list_all_iff store_encode_list decode_encode_item)

lemma decode_encode_client:
  "store_struct client_fields client_put (encode_client cfg) zero_client = Some cfg"
  by (simp add: encode_client_def client_fields_def client_put_def zero_client_def)

subsection \<open>Defaults and overrides\<close>

lemma server_defaults_fields [simp]:
  "ControlAddr (SetServerDefaults c) = (if ControlAddr c = [] then '':7000'' else ControlAddr c)"
  "LogLevel (SetServerDefaults c) = (if LogLevel c = [] then ''info'' else LogLevel c)"
  "DynamicPortMin (SetServerDefaults c) = (if DynamicPortMin c \<le> 0 then 40000 else DynamicPortMin c)"
  "DynamicPortMax (SetServerDefaults c) = (if DynamicPortMax c \<le> 0 then 50000 else DynamicPortMax c)"
  "Token (SetServerDefaults c) = Token c" "Clients (SetServerDefaults c) = Clients c"
  by (simp_all add: SetServerDefaults_def Let_def)

lemma server_env_fields [simp]:
  "ControlAddr (ApplyServerEnvOverrides env c)
     = (if env ''TUNNEL_SERVER_ADDR'' = [] then ControlAddr c else env ''TUNNEL_SERVER_ADDR'')"
  "Token (ApplyServerEnvOverrides env c)
     = (if env ''TUNNEL_TOKEN'' = [] then Token c else env ''TUNNEL_TOKEN'')"
  "LogLevel (ApplyServerEnvOverrides env c) = LogLevel c"
  "DynamicPortMin (ApplyServerEnvOverrides env c) = DynamicPortMin c"
  "DynamicPortMax (ApplyServerEnvOverrides env c) = DynamicPortMax c"
  "Clients (ApplyServerEnvOverrides env c) = Clients c"
  by (simp_all add: ApplyServerEnvOverrides_def Let_def)

lemma client_env_fields [simp]:
  "ServerAddr (ApplyClientEnvOverrides env c)
     = (if env ''TUNNEL_SERVER_TARGET'' = [] then ServerAddr c else env ''TUNNEL_SERVER_TARGET'')"
  "c_ClientID (ApplyClientEnvOverrides env c)
     = (if env ''TUNNEL_CLIENT_ID'' = [] then c_ClientID c else env ''TUNNEL_CLIENT_ID'')"
  "c_Token (ApplyClientEnvOverrides env c)
     = (if env ''TUNNEL_TOKEN'' = [] then c_Token c else env ''TUNNEL_TOKEN'')"
  by (simp_all add: ApplyClientEnvOverrides_def Let_def)

lemma validate_server_env:
  "ValidateServerConfig c = None \<Longrightarrow> ValidateServerConfig (ApplyServerEnvOverrides env c) = None"
  by (auto simp: ValidateServerConfig_def split: if_splits)

lemma validate_client_env:
  "ValidateClientConfig c = None \<Longrightarrow> ValidateClientConfig (ApplyClientEnvOverrides env c) = None"
  by (auto simp: ValidateClientConfig_def split: if_splits)

text \<open>What the other components need to know of a loaded configuration.\<close>

lemma load_range:
  "LoadServerConfig fs env path = Inr cfg \<Longrightarrow>
     1 \<le> DynamicPortMin cfg \<and> DynamicPortMin cfg \<le> DynamicPortMax cfg"
  by (auto simp: LoadServerConfig_def ValidateServerConfig_def Let_def
      split: file_state.splits option.splits if_splits)

lemma load_encoded:
  "ValidateServerConfig cfg = None \<Longrightarrow> SetServerDefaults cfg = cfg \<Longrightarrow> server_ints_ok cfg \<Longrightarrow>
     LoadServerConfig (\<lambda>_. Holds (encode_server cfg)) (\<lambda>_. []) path = Inr cfg"
  by (simp add: LoadServerConfig_def decode_encode_server ApplyServerEnvOverrides_def
      env_obfuscation_def)

subsection \<open>Properties\<close>

text \<open>
  C31. Loading a server configuration succeeds exactly when the path holds a JSON value that decodes,
  the file or the environment gives a token, and the port range after the defaults is not empty.
  The loaded configuration then has a token, a control address and a log level, and a port range
  of positive ports. In particular the check of the control address can never fail.
\<close>

theorem load_server_config:
  "((\<exists>cfg. LoadServerConfig fs env path = Inr cfg) \<longleftrightarrow>
      (\<exists>j d. fs path = Holds j \<and> store_struct server_fields server_put j zero_server = Some d
        \<and> \<not> (Token d = [] \<and> env ''TUNNEL_TOKEN'' = [])
        \<and> DynamicPortMin (SetServerDefaults d) \<le> DynamicPortMax (SetServerDefaults d)))
   \<and> (case LoadServerConfig fs env path of
        Inl e \<Rightarrow> e \<noteq> Invalid NoControlAddr
      | Inr cfg \<Rightarrow> Token cfg \<noteq> [] \<and> ControlAddr cfg \<noteq> [] \<and> LogLevel cfg \<noteq> []
          \<and> 1 \<le> DynamicPortMin cfg \<and> DynamicPortMin cfg \<le> DynamicPortMax cfg)"
proof (cases "fs path")
  case (Holds j)
  show ?thesis
  proof (cases "store_struct server_fields server_put j zero_server")
    case None
    with Holds show ?thesis by (simp add: LoadServerConfig_def)
  next
    case (Some d)
    with Holds show ?thesis
      by (auto simp: LoadServerConfig_def ValidateServerConfig_def Let_def)
  qed
qed (simp_all add: LoadServerConfig_def)



end
