(* ===== verification/Control_Auth.thy ===== *)
theory Control_Auth
  imports Auth_Protocol Config
begin

text \<open>
  The authentication the program really runs on a control connection: \<^verbatim>\<open>authenticateStream\<close>,
  \<^verbatim>\<open>calculateHMAC\<close> and \<^verbatim>\<open>validateClientConfig\<close> of \<^verbatim>\<open>pkg/server/server.go\<close> and
  \<^verbatim>\<open>performHMACAuth\<close> of \<^verbatim>\<open>pkg/client/client.go\<close>. The server reads the reply with one \<^verbatim>\<open>Read\<close> into
  512 bytes; the client sends no identifier length and waits for no verdict.
\<close>

definition calculateHMAC :: "bytes \<Rightarrow> string \<Rightarrow> string \<Rightarrow> bytes" where
  "calculateHMAC nonce secret clientID = hmac_sha256 (str_bytes secret) (nonce @ str_bytes clientID)"

definition validateClientConfig :: "ServerConfig \<Rightarrow> string \<Rightarrow> bool" where
  "validateClientConfig cfg clientID =
     (if length (Clients cfg) = 0 then True
      else list_ex (\<lambda>c. ClientID c = clientID) (Clients cfg))"

definition authenticateStream ::
    "ServerConfig \<Rightarrow> bytes option \<Rightarrow> conn \<Rightarrow> (string \<times> bool) \<times> conn" where
  "authenticateStream cfg rnd c0 =
     (case rnd of None \<Rightarrow> (([], False), c0)
      | Some nonce \<Rightarrow>
        (case conn_write nonce c0 of
           (False, c1) \<Rightarrow> (([], False), c1)
         | (True, c1) \<Rightarrow>
           (case conn_read 512 c1 of ((buf, err), c2) \<Rightarrow>
              if err then (([], False), c2)
              else (case split_colon buf of
                      None \<Rightarrow> (([], False), c2)
                    | Some (part0, part1) \<Rightarrow>
                      let clientID = bytes_str part0;
                          clientHmac = part1;
                          expectedHmac = calculateHMAC nonce (Token cfg) clientID
                      in if hex_encode clientHmac \<noteq> hex_encode expectedHmac
                         then (([], False), c2)
                         else ((clientID, validateClientConfig cfg clientID), c2)))))"

datatype hmac_auth_error = NonceRead | ResponseWrite

definition hmac_payload :: "ClientConfig \<Rightarrow> bytes \<Rightarrow> bytes" where
  "hmac_payload cfg nonce =
     (let mac = hmac_sha256 (str_bytes (c_Token cfg)) (nonce @ str_bytes (c_ClientID cfg))
      in str_bytes (c_ClientID cfg) @ str_bytes '':'' @ hex_encode mac)"

definition performHMACAuth :: "ClientConfig \<Rightarrow> conn \<Rightarrow> hmac_auth_error option \<times> conn" where
  "performHMACAuth cfg c0 =
     (case read_full 32 c0 of
        (None, c1) \<Rightarrow> (Some NonceRead, c1)
      | (Some nonce, c1) \<Rightarrow>
        (case conn_write (hmac_payload cfg nonce) c1 of
           (False, c2) \<Rightarrow> (Some ResponseWrite, c2)
         | (True, c2) \<Rightarrow> (None, c2)))"

subsection \<open>The server's decision\<close>

definition raw_response :: "string \<Rightarrow> bytes \<Rightarrow> string \<Rightarrow> bytes" where
  "raw_response token nonce i = str_bytes i @ colon # calculateHMAC nonce token i"

definition no_colon :: "string \<Rightarrow> bool" where
  "no_colon i \<longleftrightarrow> colon \<notin> set (str_bytes i)"

lemma length_calculateHMAC [simp]: "length (calculateHMAC n t i) = 32"
  by (simp add: calculateHMAC_def)

text \<open>The decision on the bytes of the one \<^verbatim>\<open>Read\<close>.\<close>

definition control_verdict :: "ServerConfig \<Rightarrow> bytes \<Rightarrow> bytes \<Rightarrow> string \<times> bool" where
  "control_verdict cfg nonce buf =
     (case split_colon buf of
        None \<Rightarrow> ([], False)
      | Some (i, mac) \<Rightarrow>
        if mac = calculateHMAC nonce (Token cfg) (bytes_str i)
        then (bytes_str i, validateClientConfig cfg (bytes_str i)) else ([], False))"

lemma authenticate_verdict:
  assumes "\<not> closed c" and "0 < wleft c"
  shows "fst (authenticateStream cfg (Some nonce) c) =
    (case ev_read 512 (rx c) of ((buf, err), _) \<Rightarrow>
       if err then ([], False) else control_verdict cfg nonce buf)"
  using assms
  by (auto simp: authenticateStream_def conn_read_def control_verdict_def Let_def
      split: prod.splits option.splits)

lemma control_verdict_True:
  "control_verdict cfg nonce buf = (i, True) \<longleftrightarrow>
     buf = raw_response (Token cfg) nonce i \<and> no_colon i \<and> validateClientConfig cfg i"
proof
  assume v: "control_verdict cfg nonce buf = (i, True)"
  then obtain l r where sp: "split_colon buf = Some (l, r)"
    by (auto simp: control_verdict_def split: option.splits)
  with v have "r = calculateHMAC nonce (Token cfg) i" and "i = bytes_str l"
    and "validateClientConfig cfg i"
    by (auto simp: control_verdict_def split: if_splits)
  with split_colon_Some [OF sp]
  show "buf = raw_response (Token cfg) nonce i \<and> no_colon i \<and> validateClientConfig cfg i"
    by (simp add: raw_response_def no_colon_def)
next
  assume "buf = raw_response (Token cfg) nonce i \<and> no_colon i \<and> validateClientConfig cfg i"
  then show "control_verdict cfg nonce buf = (i, True)"
    by (simp add: control_verdict_def raw_response_def no_colon_def split_colon_append)
qed

text \<open>A decision with an open client list, as a challenge-response scheme: it satisfies the contract
  for responses that carry the MAC itself.\<close>

definition raw_accepts :: "string \<Rightarrow> bytes \<Rightarrow> bytes \<Rightarrow> string option" where
  "raw_accepts t n reply =
     (case fst (authenticateStream (zero_server\<lparr>Token := t\<rparr>) (Some n) (new_conn [Seg reply] 1)) of
        (i, ok) \<Rightarrow> if ok then Some i else None)"

definition raw_id_ok :: "string \<Rightarrow> bool" where
  "raw_id_ok i \<longleftrightarrow> no_colon i \<and> length i \<le> 479"

definition raw_mac :: "string \<Rightarrow> bytes \<Rightarrow> string \<Rightarrow> bytes" where
  "raw_mac t n i = calculateHMAC n t i"

lemma length_raw_response [simp]: "length (raw_response t n i) = length i + 33"
  by (simp add: raw_response_def)

lemma raw_accepts_verdict:
  "raw_accepts t n r = (case control_verdict (zero_server\<lparr>Token := t\<rparr>) n (take 512 r) of
      (i, ok) \<Rightarrow> if ok then Some i else None)"
  by (cases "length r \<le> 512") (simp_all add: raw_accepts_def authenticate_verdict new_conn_def)

lemma validate_open [simp]: "validateClientConfig (zero_server\<lparr>Token := t\<rparr>) i"
  by (simp add: validateClientConfig_def zero_server_def)

interpretation raw: challenge_response raw_response raw_accepts raw_id_ok raw_mac
proof unfold_locales
  fix t n r i
  assume "raw_accepts t n r = Some i"
  then have "control_verdict (zero_server\<lparr>Token := t\<rparr>) n (take 512 r) = (i, True)"
    by (auto simp: raw_accepts_verdict split: prod.splits if_splits)
  then have r: "take 512 r = raw_response t n i" and "no_colon i"
    by (simp_all add: control_verdict_True)
  moreover have "length i + 33 \<le> 512"
    using arg_cong [OF r, of length] by simp
  moreover have "r = raw_response t n i @ drop 512 r" by (metis r append_take_drop_id)
  ultimately show "raw_id_ok i \<and> (\<exists>rest. r = raw_response t n i @ rest)"
    by (auto simp: raw_id_ok_def)
next
  fix i t n t' n'
  assume i: "raw_id_ok i"
  then have "take 512 (raw_response t' n' i) = raw_response t' n' i"
    by (intro take_all) (simp add: raw_id_ok_def)
  moreover have "split_colon (raw_response t' n' i) = Some (str_bytes i, calculateHMAC n' t' i)"
    using i by (simp add: raw_response_def raw_id_ok_def no_colon_def split_colon_append)
  ultimately show "raw_accepts t n (raw_response t' n' i)
      = (if raw_mac t' n' i = raw_mac t n i then Some i else None)"
    by (simp add: raw_accepts_verdict control_verdict_def raw_mac_def)
qed

lemma length_hmac_payload: "length (hmac_payload ccfg n) = length (c_ClientID ccfg) + 65"
  by (simp add: hmac_payload_def Let_def)

lemma performed_payload:
  "performHMACAuth ccfg c = (None, c') \<Longrightarrow> \<exists>n. tx c' = tx c @ [hmac_payload ccfg n]"
  by (auto simp: performHMACAuth_def conn_write_def dest: read_full_tx
      split: prod.splits option.splits if_splits)

text \<open>Whatever the server's token and nonce are, it refuses what the client sends.\<close>

lemma payload_refused: "\<not> snd (control_verdict cfg nonce (hmac_payload ccfg n))"
proof -
  let ?i = "str_bytes (c_ClientID ccfg)"
  have colon: "str_bytes '':'' = [colon]"
    by (simp add: str_bytes_def byte_of_def colon_def)
  obtain mac where h: "hmac_payload ccfg n = ?i @ colon # hex_encode mac" "length mac = 32"
    by (simp add: hmac_payload_def Let_def colon)
  show ?thesis
  proof (cases "split_colon (hmac_payload ccfg n)")
    case (Some lr)
    obtain l r where lr: "lr = (l, r)" by (cases lr)
    have eq: "?i @ colon # hex_encode mac = l @ colon # r" and nl: "colon \<notin> set l"
      using split_colon_Some [of "hmac_payload ccfg n"] Some lr h(1) by auto
    have "length l \<le> length ?i"
    proof (rule ccontr)
      assume "\<not> length l \<le> length ?i"
      then have "length ?i < length l" by simp
      then have "l ! length ?i = (l @ colon # r) ! length ?i" by (simp add: nth_append)
      also have "\<dots> = colon" by (metis eq nth_append_length)
      finally show False using nl \<open>length ?i < length l\<close> nth_mem by metis
    qed
    moreover have "length ?i + 65 = length l + 1 + length r"
      using arg_cong [OF eq, of length] h(2) by simp
    ultimately have "length r \<noteq> 32" by simp
    then show ?thesis using Some lr by (auto simp: control_verdict_def)
  qed (simp add: control_verdict_def)
qed

subsection \<open>Properties\<close>

text \<open>
  C4. The control server authenticates a peer as \<open>i\<close> exactly when the bytes of its first \<^verbatim>\<open>Read\<close> are
  the identifier, a colon and the 32 bytes of the MAC of the nonce and the identifier under the
  server's token, the identifier has no colon, and it is registered (or no client is). In every
  other case the peer is refused.
\<close>

theorem control_authentication_iff:
  assumes "\<not> closed c" and "0 < wleft c"
  shows "(fst (authenticateStream cfg (Some nonce) c) = (i, True)) =
    (\<exists>r. ev_read 512 (rx c) = ((raw_response (Token cfg) nonce i, False), r)
      \<and> no_colon i \<and> validateClientConfig cfg i)"
proof -
  obtain buf err r where rd: "ev_read 512 (rx c) = ((buf, err), r)" by (metis surj_pair)
  show ?thesis
    using rd by (auto simp: authenticate_verdict [OF assms] control_verdict_True)
qed

lemma control_authentication_iff_witness:
  "fst (authenticateStream (zero_server\<lparr>Token := ''t''\<rparr>) (Some [1])
      (new_conn [Seg (raw_response ''t'' [1] ''a'')] 1)) = (''a'', True)"
  using control_authentication_iff [of "new_conn [Seg (raw_response ''t'' [1] ''a'')] 1"
      "zero_server\<lparr>Token := ''t''\<rparr>" "[1]" "''a''"]
  by (simp add: new_conn_def no_colon_def colon_def str_bytes_def byte_of_def)

text \<open>
  C5. The program's client is never authenticated by the program's server. Whatever the tokens, the
  identifier (up to the length that fits the server's buffer), the nonces and the registered
  clients are, when the server's \<^verbatim>\<open>Read\<close> returns the reply of \<^verbatim>\<open>performHMACAuth\<close>, the server refuses:
  the client sends the MAC as 64 hexadecimal characters and the server encodes what it received
  once more before it compares. The client, which waits for no answer, has reported success.
\<close>

theorem client_is_never_authenticated:
  assumes "performHMACAuth ccfg c = (None, c')" and "tx c = []"
    and "length (c_ClientID ccfg) \<le> 447"
    and "\<not> closed s" and "0 < wleft s" and "rx s = Seg (concat (tx c')) # later"
  shows "\<not> snd (fst (authenticateStream cfg (Some nonce) s))"
proof -
  obtain n where p: "concat (tx c') = hmac_payload ccfg n"
    using performed_payload [OF assms(1)] assms(2) by auto
  then show ?thesis
    using assms(3-6) payload_refused [of cfg nonce ccfg n] length_hmac_payload [of ccfg n]
    by (simp add: authenticate_verdict)
qed

lemma client_is_never_authenticated_witness:
  "\<not> snd (fst (authenticateStream (zero_server\<lparr>Token := ''t''\<rparr>) (Some (replicate 32 1))
      (new_conn [Seg (hmac_payload (zero_client\<lparr>c_Token := ''t'', c_ClientID := ''a''\<rparr>)
         (replicate 32 1))] 1)))"
proof -
  let ?ccfg = "zero_client\<lparr>c_Token := ''t'', c_ClientID := ''a''\<rparr>"
  define n where "n = replicate 32 (1 :: byte)"
  have "length n = 32" by (simp add: n_def)
  then have "performHMACAuth ?ccfg (new_conn [Seg n] 1)
      = (None, (new_conn [Seg n] 1)\<lparr>rx := [], tx := [hmac_payload ?ccfg n], wleft := 0\<rparr>)"
    by (simp add: performHMACAuth_def read_full_def ev_read_full_Seg new_conn_def)
  from client_is_never_authenticated [OF this, of "new_conn [Seg (hmac_payload ?ccfg n)] 1" "[]"]
  show ?thesis unfolding n_def [symmetric] by (simp add: new_conn_def zero_client_def)
qed

text \<open>
  The server's side is a sound scheme for a client that would send the MAC itself: such a reply is
  accepted under the server's own token and nonce, and a reply made for another token or another
  nonce is accepted only if the MACs collide, with the identifier it was made for.
\<close>

theorem raw_client_would_be_authenticated:
  assumes "raw_id_ok i"
  shows "raw_accepts t n (raw_response t n i) = Some i
    \<and> (raw_accepts t n (raw_response t' n' i) = Some j) = (j = i \<and> calculateHMAC n' t' i = calculateHMAC n t i)"
  using raw.accepts_own [OF assms] raw.decides [OF assms, of t n t' n']
  by (auto simp: raw_mac_def)

lemma raw_client_would_be_authenticated_witness:
  "raw_accepts ''t'' [1] (raw_response ''t'' [1] ''a'') = Some ''a''"
proof -
  have "raw_id_ok ''a''"
    by (simp add: raw_id_ok_def no_colon_def colon_def str_bytes_def byte_of_def)
  from raw_client_would_be_authenticated [OF this] show ?thesis by simp
qed

end
