(* ===== verification/Port_Alloc.thy ===== *)
theory Port_Alloc
  imports Config
begin

text \<open>
  Dynamic ports (\<^verbatim>\<open>pkg/server/server.go\<close>): \<open>GetDynamicPortRange\<close>, \<open>AllocateDynamicPort\<close> and
  \<open>ReleaseDynamicPort\<close> on the map \<^verbatim>\<open>usedPorts\<close>. The bodies run under \<^verbatim>\<open>dynamicMu\<close>, so each is one
  step. \<open>probe p\<close> says whether \<^verbatim>\<open>net.Listen\<close> on port \<open>p\<close> succeeds during the call. The search
  loop is a partial function over Go's wrapping integers: None means that it never returns.
\<close>

type_synonym used_ports = "(int, bool) gomap"

definition is_used :: "used_ports \<Rightarrow> int \<Rightarrow> bool" where
  "is_used m p \<longleftrightarrow> map_of m p = Some True"

definition GetDynamicPortRange :: "ServerConfig \<Rightarrow> int \<times> int" where
  "GetDynamicPortRange cfg =
     (let minPort = DynamicPortMin cfg;
          maxPort = DynamicPortMax cfg;
          minPort = (if minPort \<le> 0 then 40000 else minPort);
          maxPort = (if maxPort \<le> 0 then 50000 else maxPort)
      in if maxPort < minPort then (40000, 50000) else (minPort, maxPort))"

partial_function (option) alloc_scan ::
    "(int \<Rightarrow> bool) \<Rightarrow> (int \<Rightarrow> bool) \<Rightarrow> int \<Rightarrow> int \<Rightarrow> int option option" where
  "alloc_scan used probe port maxPort =
     (if port \<le> maxPort then
        if \<not> used port \<and> probe port then Some (Some port)
        else alloc_scan used probe (wrap64 (port + 1)) maxPort
      else Some None)"

declare alloc_scan.simps [code]

datatype alloc_error = Exhausted int int

definition AllocateDynamicPort ::
    "ServerConfig \<Rightarrow> (int \<Rightarrow> bool) \<Rightarrow> used_ports \<Rightarrow> ((alloc_error + int) \<times> used_ports) option" where
  "AllocateDynamicPort cfg probe usedPorts =
     (let (minPort, maxPort) = GetDynamicPortRange cfg in
      case alloc_scan (is_used usedPorts) probe minPort maxPort of
        None \<Rightarrow> None
      | Some None \<Rightarrow> Some (Inl (Exhausted minPort maxPort), usedPorts)
      | Some (Some port) \<Rightarrow> Some (Inr port, AList.update port True usedPorts))"

definition ReleaseDynamicPort :: "int \<Rightarrow> used_ports \<Rightarrow> used_ports" where
  "ReleaseDynamicPort port usedPorts = AList.delete port usedPorts"

subsection \<open>The search loop\<close>

lemma is_used_update [simp]:
  "is_used (AList.update p True m) q \<longleftrightarrow> q = p \<or> is_used m q"
  "is_used (AList.delete p m) q \<longleftrightarrow> q \<noteq> p \<and> is_used m q"
  by (auto simp: is_used_def)

lemma alloc_scan_Some:
  assumes "alloc_scan used probe port hi = Some (Some p)"
  shows "p \<le> hi \<and> \<not> used p \<and> probe p"
proof -
  have "\<And>r. alloc_scan used probe port hi = Some r \<Longrightarrow>
      (case r of None \<Rightarrow> True | Some p \<Rightarrow> p \<le> hi \<and> \<not> used p \<and> probe p)"
    by (rule alloc_scan.raw_induct [where P = "\<lambda>used probe port hi r.
          (case r of None \<Rightarrow> True | Some p \<Rightarrow> p \<le> hi \<and> \<not> used p \<and> probe p)"])
      (auto split: if_splits)
  from this [OF assms] show ?thesis by simp
qed

text \<open>Below the largest Go integer the loop returns, and finds the least free port.\<close>

lemma alloc_scan_least:
  assumes "min_int64 \<le> port" and "hi < max_int64"
  shows "(\<exists>p. alloc_scan used probe port hi = Some (Some p) \<and> port \<le> p \<and> p \<le> hi
          \<and> \<not> used p \<and> probe p \<and> (\<forall>q\<in>{port..<p}. used q \<or> \<not> probe q))
      \<or> (alloc_scan used probe port hi = Some None \<and> (\<forall>q\<in>{port..hi}. used q \<or> \<not> probe q))"
  using assms
proof (induction "nat (hi + 1 - port)" arbitrary: port)
  case 0
  then show ?case by (subst (1 2) alloc_scan.simps) auto
next
  case (Suc n)
  show ?case
  proof (cases "\<not> used port \<and> probe port")
    case True
    with Suc.hyps(2) show ?thesis
      by (intro disjI1 exI [of _ port]) (subst alloc_scan.simps, auto)
  next
    case False
    have le: "port \<le> hi" using Suc.hyps(2) by linarith
    have w: "wrap64 (port + 1) = port + 1" using Suc.prems le by (intro wrap64_id) auto
    have unfold: "alloc_scan used probe port hi = alloc_scan used probe (port + 1) hi"
      using False le w by (subst alloc_scan.simps) auto
    have split: "{port..<p} = insert port {port + 1..<p}" if "port + 1 \<le> p" for p
      using that by auto
    have split': "{port..hi} = insert port {port + 1..hi}" using le by auto
    have "n = nat (hi + 1 - (port + 1))" using Suc.hyps(2) by linarith
    from Suc.hyps(1) [OF this] Suc.prems show ?thesis
      using False unfolding unfold split' by (auto simp: split)
  qed
qed

text \<open>At the largest Go integer the counter wraps below every port, and the search goes on.\<close>

lemma alloc_scan_diverges:
  assumes "\<forall>p. min_int64 \<le> p \<and> p \<le> max_int64 \<longrightarrow> used p \<or> \<not> probe p"
    and "min_int64 \<le> port" and "port \<le> max_int64"
  shows "alloc_scan used probe port max_int64 = None"
proof (rule ccontr)
  assume "alloc_scan used probe port max_int64 \<noteq> None"
  then obtain r where r: "alloc_scan used probe port max_int64 = Some r" by auto
  have "\<not> (hi = max_int64 \<and> min_int64 \<le> port \<and> port \<le> max_int64
      \<and> (\<forall>p. min_int64 \<le> p \<and> p \<le> max_int64 \<longrightarrow> used p \<or> \<not> probe p))"
    if "alloc_scan used probe port hi = Some r" for used probe port hi r
    by (rule alloc_scan.raw_induct [where P = "\<lambda>used probe port hi r.
          \<not> (hi = max_int64 \<and> min_int64 \<le> port \<and> port \<le> max_int64
            \<and> (\<forall>p. min_int64 \<le> p \<and> p \<le> max_int64 \<longrightarrow> used p \<or> \<not> probe p))", OF _ that])
      (auto split: if_splits simp: wrap64_range)
  from this [OF r] assms show False by blast
qed

subsection \<open>The interface: a pool of ports\<close>

text \<open>A series of requests to a pool: the ports handed out, and the pool afterwards.\<close>

fun alloc_many ::
    "('probe \<Rightarrow> 's \<Rightarrow> (('e + int) \<times> 's) option) \<Rightarrow> 'probe list \<Rightarrow> 's \<Rightarrow> (int list \<times> 's) option" where
  "alloc_many alloc [] s = Some ([], s)"
| "alloc_many alloc (pr # prs) s =
     (case alloc pr s of
        None \<Rightarrow> None
      | Some (Inl e, s') \<Rightarrow> alloc_many alloc prs s'
      | Some (Inr p, s') \<Rightarrow> map_option (\<lambda>(ps, t). (p # ps, t)) (alloc_many alloc prs s'))"

text \<open>
  What the server relies on: an allocation hands out a port that nobody holds and records it, a
  failed one changes nothing, and a release gives back one port.
\<close>

locale port_pool =
  fixes alloc :: "'probe \<Rightarrow> 's \<Rightarrow> (('e + int) \<times> 's) option"
    and release :: "int \<Rightarrow> 's \<Rightarrow> 's"
    and held :: "'s \<Rightarrow> int set"
  assumes alloc_fresh: "alloc pr s = Some (Inr p, s') \<Longrightarrow> p \<notin> held s \<and> held s' = insert p (held s)"
    and alloc_failed: "alloc pr s = Some (Inl e, s') \<Longrightarrow> s' = s"
    and release_one: "held (release p s) = held s - {p}"
begin

lemma alloc_many_distinct:
  "alloc_many alloc prs s = Some (ps, t) \<Longrightarrow>
     distinct ps \<and> set ps \<inter> held s = {} \<and> held t = held s \<union> set ps"
proof (induction prs arbitrary: s ps)
  case (Cons pr prs)
  then show ?case
  proof (cases "alloc pr s")
    case (Some rs)
    obtain r s' where rs: "rs = (r, s')" by (cases rs)
    show ?thesis
    proof (cases r)
      case (Inl e)
      with Cons Some rs alloc_failed show ?thesis by fastforce
    next
      case (Inr p)
      with Cons.prems Some rs obtain qs where "alloc_many alloc prs s' = Some (qs, t)" and "ps = p # qs"
        by (auto split: option.splits)
      moreover have "p \<notin> held s" and "held s' = insert p (held s)"
        using alloc_fresh Some rs Inr by blast+
      ultimately show ?thesis using Cons.IH [of s' qs] by auto
    qed
  qed simp
qed auto

lemma release_after_alloc:
  "alloc pr s = Some (Inr p, s') \<Longrightarrow> held (release p s') = held s"
  using alloc_fresh [of pr s p s'] by (simp add: release_one)

end

definition held_ports :: "used_ports \<Rightarrow> int set" where
  "held_ports m = {p. is_used m p}"

lemma allocate_result:
  assumes "AllocateDynamicPort cfg probe m = Some (r, m')"
  shows "case r of
      Inl e \<Rightarrow> m' = m
    | Inr p \<Rightarrow> p \<le> snd (GetDynamicPortRange cfg) \<and> \<not> is_used m p \<and> probe p
        \<and> m' = AList.update p True m"
  using assms
  by (auto simp: AllocateDynamicPort_def split: prod.splits option.splits dest: alloc_scan_Some)

interpretation pool: port_pool "AllocateDynamicPort cfg" ReleaseDynamicPort held_ports for cfg
proof unfold_locales
  show "p \<notin> held_ports s \<and> held_ports s' = insert p (held_ports s)"
    if "AllocateDynamicPort cfg pr s = Some (Inr p, s')" for pr s p s'
    using allocate_result [OF that] by (auto simp: held_ports_def)
  show "s' = s" if "AllocateDynamicPort cfg pr s = Some (Inl e, s')" for pr s e s'
    using allocate_result [OF that] by simp
  show "held_ports (ReleaseDynamicPort p s) = held_ports s - {p}" for p s
    by (auto simp: held_ports_def ReleaseDynamicPort_def)
qed

lemma range_bounds:
  "case GetDynamicPortRange cfg of (lo, hi) \<Rightarrow> 1 \<le> lo \<and> lo \<le> hi
     \<and> (hi = DynamicPortMax cfg \<or> hi = 50000)"
  by (auto simp: GetDynamicPortRange_def Let_def)

lemma range_of_loaded:
  "LoadServerConfig fs env path = Inr cfg \<Longrightarrow>
     GetDynamicPortRange cfg = (DynamicPortMin cfg, DynamicPortMax cfg)"
  using load_range [of fs env path] by (simp add: GetDynamicPortRange_def Let_def)

subsection \<open>Properties\<close>

text \<open>
  C26. \<^verbatim>\<open>AllocateDynamicPort\<close> returns whenever the upper limit is below the largest integer, and hands
  out the least port of the configured range that is neither marked as used nor refused by the
  system, marking exactly that port; when there is none it reports the range and marks nothing.
  For a configuration loaded from a file the range is the one of the file.
\<close>

theorem allocate_least_free:
  fixes m :: used_ports and probe :: "int \<Rightarrow> bool"
  assumes "LoadServerConfig fs env path = Inr cfg" and "DynamicPortMax cfg < max_int64"
  defines "lo \<equiv> DynamicPortMin cfg" and "hi \<equiv> DynamicPortMax cfg"
  defines "free \<equiv> (\<lambda>q. lo \<le> q \<and> q \<le> hi \<and> \<not> is_used m q \<and> probe q)"
  shows "AllocateDynamicPort cfg probe m =
    (if {q. free q} = {} then Some (Inl (Exhausted lo hi), m)
     else let p = Min {q. free q} in Some (Inr p, AList.update p True m))"
proof -
  have r: "GetDynamicPortRange cfg = (lo, hi)"
    unfolding lo_def hi_def by (rule range_of_loaded [OF assms(1)])
  have lo: "min_int64 \<le> lo"
    using load_range [OF assms(1)] by (simp add: lo_def min_int64_def)
  have fin: "finite {q. free q}"
    by (rule finite_subset [of _ "{lo..hi}"]) (auto simp: free_def)
  show ?thesis
  proof (rule disjE [OF alloc_scan_least [OF lo, of hi "is_used m" probe]])
    show "hi < max_int64" using assms(2) by (simp add: hi_def)
  next
    assume "\<exists>p. alloc_scan (is_used m) probe lo hi = Some (Some p) \<and> lo \<le> p \<and> p \<le> hi
        \<and> \<not> is_used m p \<and> probe p \<and> (\<forall>q\<in>{lo..<p}. is_used m q \<or> \<not> probe q)"
    then obtain p where sc: "alloc_scan (is_used m) probe lo hi = Some (Some p)" and fp: "free p"
      and least: "\<And>q. free q \<Longrightarrow> p \<le> q"
      by (force simp: free_def)
    have "Min {q. free q} = p" using fin fp least by (intro Min_eqI) auto
    with fp sc r show ?thesis by (auto simp: AllocateDynamicPort_def Let_def)
  next
    assume "alloc_scan (is_used m) probe lo hi = Some None
        \<and> (\<forall>q\<in>{lo..hi}. is_used m q \<or> \<not> probe q)"
    then show ?thesis using r by (auto simp: AllocateDynamicPort_def free_def)
  qed
qed

lemma allocate_least_free_witness:
  "AllocateDynamicPort (SetServerDefaults (zero_server\<lparr>Token := ''t''\<rparr>)) (\<lambda>p. p = 40007) []
     = Some (Inr 40007, [(40007, True)])"
proof -
  let ?cfg = "SetServerDefaults (zero_server\<lparr>Token := ''t''\<rparr>)"
  have l: "LoadServerConfig (\<lambda>_. Holds (encode_server ?cfg)) (\<lambda>_. []) [] = Inr ?cfg"
    by (rule load_encoded) (simp_all add: ValidateServerConfig_def SetServerDefaults_def
        zero_server_def Let_def server_ints_ok_def int64_ok_def min_int64_def max_int64_def)
  have m: "DynamicPortMin ?cfg = 40000" "DynamicPortMax ?cfg = 50000"
    by (simp_all add: SetServerDefaults_def zero_server_def Let_def)
  have S: "{q. 40000 \<le> q \<and> q \<le> 50000 \<and> \<not> is_used [] q \<and> q = 40007} = {40007 :: int}"
    by (auto simp: is_used_def)
  have "DynamicPortMax ?cfg < max_int64" by (simp only: m) (simp add: max_int64_def)
  from allocate_least_free [OF l this, of "\<lambda>p. p = 40007" "[]", unfolded m S]
  show ?thesis by (simp add: Let_def)
qed

text \<open>
  Ports handed out by the same server are pairwise different and differ from every port that was
  marked before, whatever the system's answers are, and giving one back frees exactly that one.
\<close>

theorem allocated_ports_distinct:
  assumes "alloc_many (AllocateDynamicPort cfg) probes m = Some (ps, m')"
  shows "distinct ps \<and> set ps \<inter> held_ports m = {} \<and> held_ports m' = held_ports m \<union> set ps
    \<and> held_ports (ReleaseDynamicPort p m') = held_ports m' - {p}"
  using pool.alloc_many_distinct [OF assms] pool.release_one [of p m'] by simp

lemma allocated_ports_distinct_witness:
  "\<exists>p q m'. alloc_many (AllocateDynamicPort (zero_server\<lparr>DynamicPortMin := 7, DynamicPortMax := 8\<rparr>))
       [\<lambda>_. True, \<lambda>_. True, \<lambda>_. True] [] = Some ([p, q], m') \<and> distinct [p, q]"
proof -
  let ?cfg = "zero_server\<lparr>DynamicPortMin := 7, DynamicPortMax := 8\<rparr>"
  have "alloc_many (AllocateDynamicPort ?cfg) [\<lambda>_. True, \<lambda>_. True, \<lambda>_. True] []
      = Some ([7, 8], [(7, True), (8, True)])"
    by (simp add: AllocateDynamicPort_def GetDynamicPortRange_def alloc_scan.simps is_used_def
        wrap64_def zero_server_def)
  from allocated_ports_distinct [OF this] this show ?thesis by blast
qed



end
