(* ===== verification/Server_Core.thy ===== *)
theory Server_Core
  imports Rate_Limiter Control_Auth Port_Alloc
begin

text \<open>
  The tunnel server (\<^verbatim>\<open>pkg/server/server.go\<close>): its shared state and every section of its code that
  reads or changes it. Sessions and listening sockets are objects that several goroutines hold
  pointers to, so both live in heaps (lists indexed by their address). The goroutines that are
  alive are part of the state: a list per function, with the values each one has captured. A
  section that runs under the server's mutex is one function here, and \<^verbatim>\<open>Server_Steps\<close> interleaves them.
\<close>

record ClientSession =
  ID :: string
  IsClosed :: bool
  ConnectedAt :: int
  ActivePorts :: "int list"
  BytesTx :: "64 word"
  BytesRx :: "64 word"
  ActiveStreams :: "32 word"

record net_listener =
  l_port :: int
  l_open :: bool

datatype proxy_phase = Opening | Copying bool bool

record Server =
  config :: ServerConfig
  sessions :: "ClientSession list"
  sockets :: "net_listener list"
  clients :: "(string, nat) gomap"
  listeners :: "(int, nat) gomap"
  usedPorts :: used_ports
  rateLimiter :: RateLimiter
  totalConnections :: "64 word"
  authFailures :: "64 word"
  alerts :: "json list"
  handshaking :: "string list"
  setups :: "(nat \<times> int list) list"
  starting :: "(int \<times> nat) list"
  serving :: "(int \<times> nat \<times> nat) list"
  monitors :: "nat list"
  proxying :: "(nat \<times> proxy_phase) list"

definition NewServer :: "ServerConfig \<Rightarrow> Server" where
  "NewServer cfg =
     \<lparr>config = cfg, sessions = [], sockets = [], clients = [], listeners = [], usedPorts = [],
      rateLimiter = NewRateLimiter 20 60000000000, totalConnections = 0, authFailures = 0,
      alerts = [], handshaking = [], setups = [], starting = [], serving = [], monitors = [],
      proxying = []\<rparr>"

subsection \<open>Alerts\<close>

text \<open>\<open>ts\<close> is the formatted time; the body posted to the webhook is appended to \<open>alerts\<close>.\<close>

definition sendWebhookAlert :: "string \<Rightarrow> string \<Rightarrow> (string \<times> string) list \<Rightarrow> Server \<Rightarrow> Server" where
  "sendWebhookAlert ts eventType data s =
     (if WebhookURL (config s) = [] then s
      else s\<lparr>alerts := alerts s @
        [JObj [(''data'', JObj (map (\<lambda>(k, v). (k, JStr v)) data)),
               (''event'', JStr eventType), (''timestamp'', JStr ts)]]\<rparr>)"

subsection \<open>Accepting and authenticating control connections\<close>

text \<open>One iteration of the accept loop of \<open>Start\<close>: the limiter decides on the address without port.\<close>

definition acceptControl :: "string \<Rightarrow> string \<Rightarrow> int \<Rightarrow> Server \<Rightarrow> Server" where
  "acceptControl remoteIP remote now s =
     (case Allow remoteIP now (rateLimiter s) of
        (False, rl) \<Rightarrow> s\<lparr>rateLimiter := rl, authFailures := authFailures s + 1\<rparr>
      | (True, rl) \<Rightarrow> s\<lparr>rateLimiter := rl, totalConnections := totalConnections s + 1,
                        handshaking := handshaking s @ [remote]\<rparr>)"

text \<open>The ports \<open>setupClientListeners\<close> goes through, in its order.\<close>

definition setup_ports :: "ServerConfig \<Rightarrow> string \<Rightarrow> int list" where
  "setup_ports cfg clientID =
     concat (map Ports (filter (\<lambda>c. ClientID c = clientID) (Clients cfg)))"

definition close_session :: "nat \<Rightarrow> Server \<Rightarrow> Server" where
  "close_session sid s = s\<lparr>sessions := (sessions s)[sid := (sessions s ! sid)\<lparr>IsClosed := True\<rparr>]\<rparr>"

text \<open>
  The part of \<open>handleControlConn\<close> after a successful authentication: a session already registered
  under the identifier is closed and replaced.
\<close>

definition register_client :: "string \<Rightarrow> string \<Rightarrow> int \<Rightarrow> Server \<Rightarrow> Server" where
  "register_client clientID ts now s =
     (let s = (case map_of (clients s) clientID of
                 Some old \<Rightarrow> close_session old s
               | None \<Rightarrow> s);
          sid = length (sessions s);
          clientSess = \<lparr>ID = clientID, IsClosed = False, ConnectedAt = now, ActivePorts = [],
                        BytesTx = 0, BytesRx = 0, ActiveStreams = 0\<rparr>;
          s = s\<lparr>sessions := sessions s @ [clientSess], clients := AList.update clientID sid (clients s)\<rparr>;
          s = sendWebhookAlert ts ''ClientConnected'' [(''client_id'', clientID)] s
      in s\<lparr>setups := setups s @ [(sid, setup_ports (config s) clientID)]\<rparr>)"

text \<open>
  \<open>strm\<close> is what the multiplexer's \<^verbatim>\<open>Server\<close> and \<^verbatim>\<open>AcceptStream\<close> give (None for an error of either),
  \<open>rnd\<close> the nonce.
\<close>

definition handleControlConn ::
    "string \<Rightarrow> conn option \<Rightarrow> bytes option \<Rightarrow> string \<Rightarrow> int \<Rightarrow> Server \<Rightarrow> Server" where
  "handleControlConn remote strm rnd ts now s =
     (case strm of
        None \<Rightarrow> s
      | Some c \<Rightarrow>
        (case fst (authenticateStream (config s) rnd c) of
           (clientID, authSuccess) \<Rightarrow>
             if \<not> authSuccess
             then sendWebhookAlert ts ''AuthFailure'' [(''remote'', remote)]
                    (s\<lparr>authFailures := authFailures s + 1\<rparr>)
             else register_client clientID ts now s))"

subsection \<open>Setting up the listeners of a client\<close>

text \<open>
  One iteration of the loops of \<open>setupClientListeners\<close>: a goroutine for the port is started, except
  that a failed dynamic allocation skips the port. None: the allocation does not return.
\<close>

definition setup_port :: "(int \<Rightarrow> bool) \<Rightarrow> nat \<Rightarrow> int \<Rightarrow> Server \<Rightarrow> Server option" where
  "setup_port probe sid port s =
     (if port = 0 then
        (case AllocateDynamicPort (config s) probe (usedPorts s) of
           None \<Rightarrow> None
         | Some (Inl err, used) \<Rightarrow> Some (s\<lparr>usedPorts := used\<rparr>)
         | Some (Inr allocated, used) \<Rightarrow>
             Some (s\<lparr>usedPorts := used, starting := starting s @ [(allocated, sid)]\<rparr>))
      else Some (s\<lparr>starting := starting s @ [(port, sid)]\<rparr>))"

definition close_listener :: "nat \<Rightarrow> Server \<Rightarrow> Server" where
  "close_listener lid s = s\<lparr>sockets := (sockets s)[lid := (sockets s ! lid)\<lparr>l_open := False\<rparr>]\<rparr>"

text \<open>
  The locked section at the start of \<open>startProxyListener\<close>; \<open>bound\<close> is the answer of \<^verbatim>\<open>net.Listen\<close>.
  With success the goroutine goes on as an accept loop on the new listener.
\<close>

definition startProxyListener :: "bool \<Rightarrow> int \<Rightarrow> nat \<Rightarrow> Server \<Rightarrow> Server" where
  "startProxyListener bound port sid s =
     (case map_of (listeners s) port of
        Some _ \<Rightarrow> s
      | None \<Rightarrow>
        if \<not> bound then s
        else let lid = length (sockets s); client = sessions s ! sid
             in s\<lparr>sockets := sockets s @ [\<lparr>l_port = port, l_open = True\<rparr>],
                  listeners := AList.update port lid (listeners s),
                  sessions := (sessions s)[sid := client\<lparr>ActivePorts := ActivePorts client @ [port]\<rparr>],
                  serving := serving s @ [(port, sid, lid)]\<rparr>)"

text \<open>The deferred function that runs when the accept loop ends.\<close>

definition stopProxyListener :: "int \<Rightarrow> nat \<Rightarrow> Server \<Rightarrow> Server" where
  "stopProxyListener port lid s =
     (let s = close_listener lid s
      in s\<lparr>listeners := AList.delete port (listeners s),
           usedPorts := ReleaseDynamicPort port (usedPorts s)\<rparr>)"

subsection \<open>A session ends\<close>

definition monitor_port :: "int \<Rightarrow> Server \<Rightarrow> Server" where
  "monitor_port port s =
     (let s = (case map_of (listeners s) port of
                 Some l \<Rightarrow> (close_listener l s)\<lparr>listeners := AList.delete port (listeners s)\<rparr>
               | None \<Rightarrow> s)
      in s\<lparr>usedPorts := ReleaseDynamicPort port (usedPorts s)\<rparr>)"

definition monitorSession :: "string \<Rightarrow> nat \<Rightarrow> Server \<Rightarrow> Server" where
  "monitorSession ts sid s =
     (let client = sessions s ! sid;
          s = sendWebhookAlert ts ''ClientDisconnected'' [(''client_id'', ID client)] s;
          s = s\<lparr>clients := AList.delete (ID client) (clients s)\<rparr>
      in fold monitor_port (ActivePorts client) s)"

subsection \<open>Connections of users\<close>

definition upd_session :: "nat \<Rightarrow> (ClientSession \<Rightarrow> ClientSession) \<Rightarrow> Server \<Rightarrow> Server" where
  "upd_session sid f s = s\<lparr>sessions := (sessions s)[sid := f (sessions s ! sid)]\<rparr>"

text \<open>
  \<open>handleProxyConnection\<close> up to \<^verbatim>\<open>OpenStream\<close>, after the header is written or a step before failed,
  at the end of each copy, and at the end. The counters are those the atomic operations update.
\<close>

definition proxy_enter :: "nat \<Rightarrow> Server \<Rightarrow> Server" where
  "proxy_enter sid s =
     (if IsClosed (sessions s ! sid) then s
      else (upd_session sid (\<lambda>c. c\<lparr>ActiveStreams := ActiveStreams c + 1\<rparr>) s)
             \<lparr>proxying := proxying s @ [(sid, Opening)]\<rparr>)"

definition proxy_leave :: "nat \<Rightarrow> Server \<Rightarrow> Server" where
  "proxy_leave sid = upd_session sid (\<lambda>c. c\<lparr>ActiveStreams := ActiveStreams c - 1\<rparr>)"

definition proxy_copied_rx :: "nat \<Rightarrow> nat \<Rightarrow> Server \<Rightarrow> Server" where
  "proxy_copied_rx sid n = upd_session sid (\<lambda>c. c\<lparr>BytesRx := BytesRx c + of_nat n\<rparr>)"

definition proxy_copied_tx :: "nat \<Rightarrow> nat \<Rightarrow> Server \<Rightarrow> Server" where
  "proxy_copied_tx sid n = upd_session sid (\<lambda>c. c\<lparr>BytesTx := BytesTx c + of_nat n\<rparr>)"

subsection \<open>What the sections change\<close>

lemmas record_op_defs = sendWebhookAlert_def acceptControl_def close_session_def close_listener_def
  upd_session_def proxy_enter_def proxy_leave_def proxy_copied_rx_def proxy_copied_tx_def

lemma alert_frame [simp]:
  "config (sendWebhookAlert ts e d s) = config s"
  "sessions (sendWebhookAlert ts e d s) = sessions s"
  "sockets (sendWebhookAlert ts e d s) = sockets s"
  "clients (sendWebhookAlert ts e d s) = clients s"
  "listeners (sendWebhookAlert ts e d s) = listeners s"
  "usedPorts (sendWebhookAlert ts e d s) = usedPorts s"
  "handshaking (sendWebhookAlert ts e d s) = handshaking s"
  "setups (sendWebhookAlert ts e d s) = setups s"
  "starting (sendWebhookAlert ts e d s) = starting s"
  "serving (sendWebhookAlert ts e d s) = serving s"
  "monitors (sendWebhookAlert ts e d s) = monitors s"
  "proxying (sendWebhookAlert ts e d s) = proxying s"
  by (simp_all add: sendWebhookAlert_def)

lemma monitor_ports_frame [simp]:
  "config (fold monitor_port ps s) = config s"
  "sessions (fold monitor_port ps s) = sessions s"
  "clients (fold monitor_port ps s) = clients s"
  "length (sockets (fold monitor_port ps s)) = length (sockets s)"
  "handshaking (fold monitor_port ps s) = handshaking s"
  "setups (fold monitor_port ps s) = setups s"
  "starting (fold monitor_port ps s) = starting s"
  "serving (fold monitor_port ps s) = serving s"
  "monitors (fold monitor_port ps s) = monitors s"
  "proxying (fold monitor_port ps s) = proxying s"
  by (induction ps arbitrary: s)
    (simp_all add: monitor_port_def close_listener_def split: option.split)

lemma monitor_ports_listeners [simp]:
  "map_of (listeners (fold monitor_port ps s)) q
     = (if q \<in> set ps then None else map_of (listeners s) q)"
proof (induction ps arbitrary: s)
  case (Cons p ps)
  have "map_of (listeners (monitor_port p s)) q = (if q = p then None else map_of (listeners s) q)"
    by (auto simp: monitor_port_def close_listener_def split: option.split)
  then show ?case using Cons.IH [of "monitor_port p s"] by auto
qed simp

lemma monitor_ports_used [simp]:
  "is_used (usedPorts (fold monitor_port ps s)) q \<longleftrightarrow> q \<notin> set ps \<and> is_used (usedPorts s) q"
proof (induction ps arbitrary: s)
  case (Cons p ps)
  have "is_used (usedPorts (monitor_port p s)) q \<longleftrightarrow> q \<noteq> p \<and> is_used (usedPorts s) q"
    by (auto simp: monitor_port_def close_listener_def ReleaseDynamicPort_def split: option.split)
  then show ?case by (auto simp add: Cons.IH)
qed simp

text \<open>A socket stays open exactly when no port of the list is mapped to it.\<close>

definition mapped_to :: "Server \<Rightarrow> int list \<Rightarrow> nat \<Rightarrow> bool" where
  "mapped_to s ps lid \<longleftrightarrow> list_ex (\<lambda>p. map_of (listeners s) p = Some lid) ps"

lemma monitor_ports_sockets [simp]:
  "lid < length (sockets s) \<Longrightarrow>
     sockets (fold monitor_port ps s) ! lid
       = (if mapped_to s ps lid then (sockets s ! lid)\<lparr>l_open := False\<rparr> else sockets s ! lid)"
proof (induction ps arbitrary: s)
  case (Cons p ps)
  let ?t = "monitor_port p s"
  have len: "length (sockets ?t) = length (sockets s)"
    by (simp add: monitor_port_def close_listener_def split: option.split)
  have here: "sockets ?t ! lid = (if map_of (listeners s) p = Some lid
      then (sockets s ! lid)\<lparr>l_open := False\<rparr> else sockets s ! lid)"
    using Cons.prems
    by (auto simp: monitor_port_def close_listener_def nth_list_update split: option.split)
  have "map_of (listeners ?t) = (map_of (listeners s))(p := None)"
    by (auto simp: monitor_port_def close_listener_def split: option.split)
  then have "mapped_to ?t ps lid \<or> map_of (listeners s) p = Some lid \<longleftrightarrow> mapped_to s (p # ps) lid"
    by (auto simp: mapped_to_def list_ex_iff)
  with here len Cons show ?case by auto
qed (simp add: mapped_to_def)

end
