(* ===== verification/Server_Steps.thy ===== *)
theory Server_Steps
  imports Server_Core
begin

text \<open>
  The interleavings of the server's goroutines as a step relation over the sections of
  \<^verbatim>\<open>Server_Core\<close>, its invariant, and what follows for the listeners and sessions. A step is caused by
  the world (a connection arrives, a session ends), by the server itself, or by a fault of
  \<^verbatim>\<open>Accept\<close> on a listener that is open.
\<close>

datatype cause = World | Internal | Fault

definition listening :: "Server \<Rightarrow> int \<Rightarrow> bool" where
  "listening s port \<longleftrightarrow> list_ex (\<lambda>l. l_port l = port \<and> l_open l) (sockets s)"

text \<open>
  What \<^verbatim>\<open>net.Listen\<close> promises: a success is on a valid port on which the process does not listen yet.
\<close>

definition can_listen :: "Server \<Rightarrow> int \<Rightarrow> bool" where
  "can_listen s port \<longleftrightarrow> 1 \<le> port \<and> port \<le> 65535 \<and> \<not> listening s port"

inductive server_step :: "cause \<Rightarrow> Server \<Rightarrow> Server \<Rightarrow> bool" where
  accept: "server_step World s (acceptControl remoteIP remote now s)"
| control: "handshaking s = xs @ remote # ys \<Longrightarrow>
    server_step World s ((handleControlConn remote strm rnd ts now s)\<lparr>handshaking := xs @ ys\<rparr>)"
| session_ends: "sid < length (sessions s) \<Longrightarrow> server_step World s (close_session sid s)"
| setup_next: "setups s = xs @ (sid, port # ports) # ys \<Longrightarrow>
    (\<And>q. probe q \<Longrightarrow> can_listen s q) \<Longrightarrow> setup_port probe sid port s = Some t \<Longrightarrow>
    server_step Internal s (t\<lparr>setups := xs @ (sid, ports) # ys\<rparr>)"
| setup_done: "setups s = xs @ (sid, []) # ys \<Longrightarrow>
    server_step Internal s (s\<lparr>setups := xs @ ys, monitors := monitors s @ [sid]\<rparr>)"
| start: "starting s = xs @ (port, sid) # ys \<Longrightarrow> (bound \<Longrightarrow> can_listen s port) \<Longrightarrow>
    server_step Internal s ((startProxyListener bound port sid s)\<lparr>starting := xs @ ys\<rparr>)"
| monitor: "monitors s = xs @ sid # ys \<Longrightarrow> IsClosed (sessions s ! sid) \<Longrightarrow>
    server_step Internal s ((monitorSession ts sid s)\<lparr>monitors := xs @ ys\<rparr>)"
| accept_ends: "serving s = xs @ (port, sid, lid) # ys \<Longrightarrow> IsClosed (sessions s ! sid) \<Longrightarrow>
    \<not> l_open (sockets s ! lid) \<Longrightarrow>
    server_step Internal s ((stopProxyListener port lid s)\<lparr>serving := xs @ ys\<rparr>)"
| accept_faults: "serving s = xs @ (port, sid, lid) # ys \<Longrightarrow> IsClosed (sessions s ! sid) \<Longrightarrow>
    l_open (sockets s ! lid) \<Longrightarrow>
    server_step Fault s ((stopProxyListener port lid s)\<lparr>serving := xs @ ys\<rparr>)"
| user: "(port, sid, lid) \<in> set (serving s) \<Longrightarrow> l_open (sockets s ! lid) \<Longrightarrow>
    server_step World s (proxy_enter sid s)"
| stream_opened: "proxying s = xs @ (sid, Opening) # ys \<Longrightarrow>
    server_step World s (s\<lparr>proxying := xs @ (sid, Copying True True) # ys\<rparr>)"
| stream_failed: "proxying s = xs @ (sid, Opening) # ys \<Longrightarrow>
    server_step World s ((proxy_leave sid s)\<lparr>proxying := xs @ ys\<rparr>)"
| copied_rx: "proxying s = xs @ (sid, Copying True b) # ys \<Longrightarrow>
    server_step World s ((proxy_copied_rx sid n s)\<lparr>proxying := xs @ (sid, Copying False b) # ys\<rparr>)"
| copied_tx: "proxying s = xs @ (sid, Copying b True) # ys \<Longrightarrow>
    server_step World s ((proxy_copied_tx sid n s)\<lparr>proxying := xs @ (sid, Copying b False) # ys\<rparr>)"
| proxied: "proxying s = xs @ (sid, Copying False False) # ys \<Longrightarrow>
    server_step World s ((proxy_leave sid s)\<lparr>proxying := xs @ ys\<rparr>)"

definition any_step :: "Server \<Rightarrow> Server \<Rightarrow> bool" where
  "any_step s t \<longleftrightarrow> (\<exists>c. server_step c s t)"

text \<open>The states a server started with a configuration can be in.\<close>

definition server_reachable :: "ServerConfig \<Rightarrow> Server \<Rightarrow> bool" where
  "server_reachable cfg s \<longleftrightarrow> any_step\<^sup>*\<^sup>* (NewServer cfg) s"

subsection \<open>The invariant\<close>

definition clients_ok :: "Server \<Rightarrow> bool" where
  "clients_ok s \<longleftrightarrow> (\<forall>i sid. map_of (clients s) i = Some sid \<longrightarrow>
     sid < length (sessions s) \<and> ID (sessions s ! sid) = i
     \<and> sid \<in> set (monitors s) \<union> fst ` set (setups s))"

definition listeners_ok :: "Server \<Rightarrow> bool" where
  "listeners_ok s \<longleftrightarrow> (\<forall>p lid. map_of (listeners s) p = Some lid \<longrightarrow>
     lid < length (sockets s) \<and> l_port (sockets s ! lid) = p \<and> l_open (sockets s ! lid))"

definition sockets_ok :: "Server \<Rightarrow> bool" where
  "sockets_ok s \<longleftrightarrow> (\<forall>lid < length (sockets s). l_open (sockets s ! lid) \<longrightarrow>
     1 \<le> l_port (sockets s ! lid) \<and> l_port (sockets s ! lid) \<le> 65535
     \<and> (\<exists>sid. (l_port (sockets s ! lid), sid, lid) \<in> set (serving s))
     \<and> (\<forall>lid' < length (sockets s). l_open (sockets s ! lid')
          \<longrightarrow> l_port (sockets s ! lid') = l_port (sockets s ! lid) \<longrightarrow> lid' = lid))"

definition serving_ok :: "Server \<Rightarrow> bool" where
  "serving_ok s \<longleftrightarrow> distinct (map (snd \<circ> snd) (serving s))
     \<and> (\<forall>(p, sid, lid) \<in> set (serving s). sid < length (sessions s) \<and> lid < length (sockets s)
          \<and> l_port (sockets s ! lid) = p \<and> p \<in> set (ActivePorts (sessions s ! sid)))"

definition goroutines_ok :: "Server \<Rightarrow> bool" where
  "goroutines_ok s \<longleftrightarrow> distinct (monitors s @ map fst (setups s))
     \<and> list_all (\<lambda>sid. sid < length (sessions s)) (monitors s @ map fst (setups s))
     \<and> list_all (\<lambda>sid. sid < length (sessions s)) (map snd (starting s) @ map fst (proxying s))"

text \<open>The active streams a session reports are the connections being proxied for it.\<close>

definition streams_of :: "nat \<Rightarrow> (nat \<times> proxy_phase) list \<Rightarrow> nat" where
  "streams_of sid ps = length (filter (\<lambda>q. fst q = sid) ps)"

definition streams_ok :: "Server \<Rightarrow> bool" where
  "streams_ok s \<longleftrightarrow> (\<forall>sid < length (sessions s).
     ActiveStreams (sessions s ! sid) = of_nat (streams_of sid (proxying s)))"

definition server_inv :: "Server \<Rightarrow> bool" where
  "server_inv s \<longleftrightarrow> clients_ok s \<and> listeners_ok s \<and> sockets_ok s \<and> serving_ok s
     \<and> goroutines_ok s \<and> streams_ok s"


lemmas inv_defs = clients_ok_def listeners_ok_def sockets_ok_def serving_ok_def goroutines_ok_def
  streams_ok_def

subsection \<open>Each part is preserved\<close>

lemma listening_iff:
  "listening s p \<longleftrightarrow> (\<exists>lid < length (sockets s). l_port (sockets s ! lid) = p \<and> l_open (sockets s ! lid))"
  by (simp add: listening_def list_ex_length)

lemma monitorSession_frame [simp]:
  "config (monitorSession ts sid s) = config s"
  "sessions (monitorSession ts sid s) = sessions s"
  "clients (monitorSession ts sid s) = AList.delete (ID (sessions s ! sid)) (clients s)"
  "length (sockets (monitorSession ts sid s)) = length (sockets s)"
  "setups (monitorSession ts sid s) = setups s"
  "starting (monitorSession ts sid s) = starting s"
  "serving (monitorSession ts sid s) = serving s"
  "monitors (monitorSession ts sid s) = monitors s"
  "proxying (monitorSession ts sid s) = proxying s"
  "map_of (listeners (monitorSession ts sid s)) q
     = (if q \<in> set (ActivePorts (sessions s ! sid)) then None else map_of (listeners s) q)"
  "lid < length (sockets s) \<Longrightarrow> sockets (monitorSession ts sid s) ! lid
     = (if mapped_to s (ActivePorts (sessions s ! sid)) lid
        then (sockets s ! lid)\<lparr>l_open := False\<rparr> else sockets s ! lid)"
  by (simp_all add: monitorSession_def Let_def mapped_to_def)

lemma stopProxyListener_frame [simp]:
  "config (stopProxyListener p l s) = config s"
  "sessions (stopProxyListener p l s) = sessions s"
  "clients (stopProxyListener p l s) = clients s"
  "sockets (stopProxyListener p l s) = (sockets s)[l := (sockets s ! l)\<lparr>l_open := False\<rparr>]"
  "listeners (stopProxyListener p l s) = AList.delete p (listeners s)"
  "setups (stopProxyListener p l s) = setups s"
  "starting (stopProxyListener p l s) = starting s"
  "monitors (stopProxyListener p l s) = monitors s"
  "proxying (stopProxyListener p l s) = proxying s"
  by (simp_all add: stopProxyListener_def close_listener_def Let_def)

lemma startProxyListener_frame [simp]:
  "config (startProxyListener b p sid s) = config s"
  "clients (startProxyListener b p sid s) = clients s"
  "length (sessions (startProxyListener b p sid s)) = length (sessions s)"
  "setups (startProxyListener b p sid s) = setups s"
  "starting (startProxyListener b p sid s) = starting s"
  "monitors (startProxyListener b p sid s) = monitors s"
  "proxying (startProxyListener b p sid s) = proxying s"
  "usedPorts (startProxyListener b p sid s) = usedPorts s"
  by (simp_all add: startProxyListener_def Let_def split: option.split)

lemma setup_port_frame:
  assumes "setup_port probe sid p s = Some t"
  shows "config t = config s" and "sessions t = sessions s" and "sockets t = sockets s"
    and "clients t = clients s" and "listeners t = listeners s" and "serving t = serving s"
    and "monitors t = monitors s" and "proxying t = proxying s" and "setups t = setups s"
    and "starting t = starting s \<or> (\<exists>q. starting t = starting s @ [(q, sid)])"
  using assms
  by (auto simp: setup_port_def split: if_splits option.splits sum.splits prod.splits)

lemma register_frame [simp]:
  "config (register_client i ts now s) = config s"
  "sockets (register_client i ts now s) = sockets s"
  "listeners (register_client i ts now s) = listeners s"
  "usedPorts (register_client i ts now s) = usedPorts s"
  "starting (register_client i ts now s) = starting s"
  "serving (register_client i ts now s) = serving s"
  "monitors (register_client i ts now s) = monitors s"
  "proxying (register_client i ts now s) = proxying s"
  "clients (register_client i ts now s) = AList.update i (length (sessions s)) (clients s)"
  "setups (register_client i ts now s)
     = setups s @ [(length (sessions s), setup_ports (config s) i)]"
  by (simp_all add: register_client_def close_session_def Let_def split: option.split)

definition fresh_session :: "string \<Rightarrow> int \<Rightarrow> ClientSession" where
  "fresh_session i now = \<lparr>ID = i, IsClosed = False, ConnectedAt = now, ActivePorts = [],
     BytesTx = 0, BytesRx = 0, ActiveStreams = 0\<rparr>"

lemma register_sessions:
  "sessions (register_client i ts now s) =
     (case map_of (clients s) i of
        None \<Rightarrow> sessions s
      | Some old \<Rightarrow> (sessions s)[old := (sessions s ! old)\<lparr>IsClosed := True\<rparr>]) @ [fresh_session i now]"
  by (simp add: register_client_def close_session_def Let_def fresh_session_def split: option.split)

text \<open>A control connection registers a session, or touches nothing but counters and alerts.\<close>

lemma handleControlConn_cases:
  obtains (none) n al where "handleControlConn remote strm rnd ts now s
      = s\<lparr>authFailures := n, alerts := al\<rparr>"
    | (reg) i where "handleControlConn remote strm rnd ts now s = register_client i ts now s"
proof -
  have "(\<exists>n al. handleControlConn remote strm rnd ts now s = s\<lparr>authFailures := n, alerts := al\<rparr>)
      \<or> (\<exists>i. handleControlConn remote strm rnd ts now s = register_client i ts now s)"
  proof (cases strm)
    case None
    then have "handleControlConn remote strm rnd ts now s
        = s\<lparr>authFailures := authFailures s, alerts := alerts s\<rparr>"
      by (simp add: handleControlConn_def)
    then show ?thesis by blast
  next
    case (Some c)
    obtain i ok where a: "fst (authenticateStream (config s) rnd c) = (i, ok)"
      by (metis surj_pair)
    have "\<exists>n al. sendWebhookAlert ts e d (s\<lparr>authFailures := authFailures s + 1\<rparr>)
        = s\<lparr>authFailures := n, alerts := al\<rparr>" for e d
    proof (cases "WebhookURL (config s) = []")
      case True
      then have "sendWebhookAlert ts e d (s\<lparr>authFailures := authFailures s + 1\<rparr>)
          = s\<lparr>authFailures := authFailures s + 1, alerts := alerts s\<rparr>"
        by (simp add: sendWebhookAlert_def)
      then show ?thesis by blast
    qed (auto simp: sendWebhookAlert_def)
    with Some a show ?thesis by (cases ok) (auto simp: handleControlConn_def)
  qed
  then show ?thesis using none reg by blast
qed


lemma acceptControl_frame [simp]:
  "config (acceptControl ip r now s) = config s"
  "sessions (acceptControl ip r now s) = sessions s"
  "sockets (acceptControl ip r now s) = sockets s"
  "clients (acceptControl ip r now s) = clients s"
  "listeners (acceptControl ip r now s) = listeners s"
  "usedPorts (acceptControl ip r now s) = usedPorts s"
  "setups (acceptControl ip r now s) = setups s"
  "starting (acceptControl ip r now s) = starting s"
  "serving (acceptControl ip r now s) = serving s"
  "monitors (acceptControl ip r now s) = monitors s"
  "proxying (acceptControl ip r now s) = proxying s"
  by (simp_all add: acceptControl_def split: prod.split bool.split)

text \<open>The session an update leaves at an address, field by field.\<close>

lemma session_updates [simp]:
  "length (sessions (upd_session sid f s)) = length (sessions s)"
  "length (sessions (close_session sid s)) = length (sessions s)"
  "ID (((xs :: ClientSession list)[j := (xs ! j)\<lparr>IsClosed := b\<rparr>]) ! i) = ID (xs ! i)"
  "ActivePorts ((xs[j := (xs ! j)\<lparr>IsClosed := b\<rparr>]) ! i) = ActivePorts (xs ! i)"
  "ActiveStreams ((xs[j := (xs ! j)\<lparr>IsClosed := b\<rparr>]) ! i) = ActiveStreams (xs ! i)"
  "ID ((xs[j := (xs ! j)\<lparr>ActivePorts := ps\<rparr>]) ! i) = ID (xs ! i)"
  "IsClosed ((xs[j := (xs ! j)\<lparr>ActivePorts := ps\<rparr>]) ! i) = IsClosed (xs ! i)"
  "ActiveStreams ((xs[j := (xs ! j)\<lparr>ActivePorts := ps\<rparr>]) ! i) = ActiveStreams (xs ! i)"
  "ID ((xs[j := (xs ! j)\<lparr>ActiveStreams := w\<rparr>]) ! i) = ID (xs ! i)"
  "IsClosed ((xs[j := (xs ! j)\<lparr>ActiveStreams := w\<rparr>]) ! i) = IsClosed (xs ! i)"
  "ActivePorts ((xs[j := (xs ! j)\<lparr>ActiveStreams := w\<rparr>]) ! i) = ActivePorts (xs ! i)"
  "ID ((xs[j := (xs ! j)\<lparr>BytesRx := v\<rparr>]) ! i) = ID (xs ! i)"
  "IsClosed ((xs[j := (xs ! j)\<lparr>BytesRx := v\<rparr>]) ! i) = IsClosed (xs ! i)"
  "ActivePorts ((xs[j := (xs ! j)\<lparr>BytesRx := v\<rparr>]) ! i) = ActivePorts (xs ! i)"
  "ActiveStreams ((xs[j := (xs ! j)\<lparr>BytesRx := v\<rparr>]) ! i) = ActiveStreams (xs ! i)"
  "ID ((xs[j := (xs ! j)\<lparr>BytesTx := v\<rparr>]) ! i) = ID (xs ! i)"
  "IsClosed ((xs[j := (xs ! j)\<lparr>BytesTx := v\<rparr>]) ! i) = IsClosed (xs ! i)"
  "ActivePorts ((xs[j := (xs ! j)\<lparr>BytesTx := v\<rparr>]) ! i) = ActivePorts (xs ! i)"
  "ActiveStreams ((xs[j := (xs ! j)\<lparr>BytesTx := v\<rparr>]) ! i) = ActiveStreams (xs ! i)"
  by (cases "j < length xs"; cases "i = j";
      simp add: upd_session_def close_session_def list_update_beyond)+


lemma socket_updates [simp]:
  "l_port (((ls :: net_listener list)[j := (ls ! j)\<lparr>l_open := b\<rparr>]) ! i) = l_port (ls ! i)"
  "i < length ls \<Longrightarrow> l_open ((ls[j := (ls ! j)\<lparr>l_open := False\<rparr>]) ! i) \<longleftrightarrow> i \<noteq> j \<and> l_open (ls ! i)"
  by (cases "j < length ls"; cases "i = j"; simp add: list_update_beyond)+

lemma clients_ok_step:
  assumes "server_step c s t" and "clients_ok s"
  shows "clients_ok t"
  using assms
proof (cases rule: server_step.cases)
  case (control xs remote ys strm rnd ts now)
  show ?thesis
  proof (rule handleControlConn_cases [of remote strm rnd ts now s])
    fix n al assume "handleControlConn remote strm rnd ts now s = s\<lparr>authFailures := n, alerts := al\<rparr>"
    with control assms(2) show ?thesis by (simp add: clients_ok_def)
  next
    fix i assume "handleControlConn remote strm rnd ts now s = register_client i ts now s"
    with control assms(2) show ?thesis
      by (auto simp: clients_ok_def register_sessions nth_append fresh_session_def
          split: option.splits)
  qed
next
  case (setup_next xs sid port ports ys probe u)
  then show ?thesis using assms(2) by (auto simp: clients_ok_def setup_port_frame)
next
  case (start xs port sid ys bound)
  then show ?thesis using assms(2)
    by (auto simp: clients_ok_def startProxyListener_def Let_def split: option.split)
next
  case (monitor xs sid ys ts)
  then show ?thesis using assms(2) by (auto simp: clients_ok_def split: if_splits)
qed (auto simp: clients_ok_def close_session_def proxy_enter_def proxy_leave_def
    proxy_copied_rx_def proxy_copied_tx_def upd_session_def)


text \<open>The steps that only touch sessions, counters or the proxied connections.\<close>

lemma proxy_frame [simp]:
  "sockets (upd_session sid f s) = sockets s" "listeners (upd_session sid f s) = listeners s"
  "serving (upd_session sid f s) = serving s" "monitors (upd_session sid f s) = monitors s"
  "setups (upd_session sid f s) = setups s" "starting (upd_session sid f s) = starting s"
  "proxying (upd_session sid f s) = proxying s" "clients (upd_session sid f s) = clients s"
  "config (upd_session sid f s) = config s" "usedPorts (upd_session sid f s) = usedPorts s"
  "sockets (close_session sid s) = sockets s" "listeners (close_session sid s) = listeners s"
  "serving (close_session sid s) = serving s" "monitors (close_session sid s) = monitors s"
  "setups (close_session sid s) = setups s" "starting (close_session sid s) = starting s"
  "proxying (close_session sid s) = proxying s" "clients (close_session sid s) = clients s"
  "config (close_session sid s) = config s" "usedPorts (close_session sid s) = usedPorts s"
  by (simp_all add: upd_session_def close_session_def)

lemma control_frame [simp]:
  "config (handleControlConn remote strm rnd ts now s) = config s"
  "sockets (handleControlConn remote strm rnd ts now s) = sockets s"
  "listeners (handleControlConn remote strm rnd ts now s) = listeners s"
  "usedPorts (handleControlConn remote strm rnd ts now s) = usedPorts s"
  "starting (handleControlConn remote strm rnd ts now s) = starting s"
  "serving (handleControlConn remote strm rnd ts now s) = serving s"
  "monitors (handleControlConn remote strm rnd ts now s) = monitors s"
  "proxying (handleControlConn remote strm rnd ts now s) = proxying s"
  by (rule handleControlConn_cases [of remote strm rnd ts now s]; simp)+

lemma listeners_ok_step:
  assumes "server_step c s t" and "listeners_ok s" and "serving_ok s"
  shows "listeners_ok t"
  using assms(1)
proof (cases rule: server_step.cases)
  case (setup_next xs sid port ports ys probe u)
  then show ?thesis using assms(2) by (auto simp: listeners_ok_def setup_port_frame)
next
  case (start xs port sid ys bound)
  then show ?thesis using assms(2)
    by (fastforce simp: listeners_ok_def startProxyListener_def Let_def nth_append split: option.split)
next
  case (monitor xs sid ys ts)
  show ?thesis unfolding listeners_ok_def
  proof (intro allI impI)
    fix p lid assume "map_of (listeners t) p = Some lid"
    with monitor have m: "p \<notin> set (ActivePorts (sessions s ! sid))" "map_of (listeners s) p = Some lid"
      by (auto split: if_splits)
    then have ok: "lid < length (sockets s)" "l_port (sockets s ! lid) = p" "l_open (sockets s ! lid)"
      using assms(2) by (auto simp: listeners_ok_def)
    have "\<not> mapped_to s (ActivePorts (sessions s ! sid)) lid"
      using m assms(2) ok by (auto simp: mapped_to_def list_ex_iff listeners_ok_def)
    with monitor ok show "lid < length (sockets t) \<and> l_port (sockets t ! lid) = p \<and> l_open (sockets t ! lid)"
      by simp
  qed
next
  case (accept_ends xs port sid lid ys)
  then show ?thesis using assms(2,3)
    by (auto simp: listeners_ok_def serving_ok_def split: if_splits)
next
  case (accept_faults xs port sid lid ys)
  then show ?thesis using assms(2,3)
    by (auto simp: listeners_ok_def serving_ok_def split: if_splits)
qed (use assms(2) in \<open>auto simp: listeners_ok_def proxy_enter_def proxy_leave_def
    proxy_copied_rx_def proxy_copied_tx_def\<close>)

lemma sockets_ok_step:
  assumes "server_step c s t" and "sockets_ok s" and "serving_ok s"
  shows "sockets_ok t"
  using assms(1)
proof (cases rule: server_step.cases)
  case (setup_next xs sid port ports ys probe u)
  then show ?thesis using assms(2) by (simp add: sockets_ok_def setup_port_frame)
next
  case (start xs port sid ys bound)
  show ?thesis
  proof (cases "map_of (listeners s) port = None \<and> bound")
    case True
    with start have c: "can_listen s port" by simp
    have t: "sockets t = sockets s @ [\<lparr>l_port = port, l_open = True\<rparr>]"
        "serving t = serving s @ [(port, sid, length (sockets s))]"
      using True start by (simp_all add: startProxyListener_def Let_def)
    show ?thesis using assms(2) c unfolding sockets_ok_def t can_listen_def listening_iff
      by (auto simp: nth_append less_Suc_eq)
  next
    case False
    then have "sockets t = sockets s" "serving t = serving s"
      using start by (auto simp: startProxyListener_def split: option.split)
    with assms(2) show ?thesis by (simp add: sockets_ok_def)
  qed
next
  case (monitor xs sid ys ts)
  then show ?thesis using assms(2) by (auto simp: sockets_ok_def split: if_splits)
next
  case (accept_ends xs port sid lid ys)
  then show ?thesis using assms(2,3)
    by (fastforce simp: sockets_ok_def)
next
  case (accept_faults xs port sid lid ys)
  then show ?thesis using assms(2,3)
    by (fastforce simp: sockets_ok_def)
qed (use assms(2) in \<open>auto simp: sockets_ok_def proxy_enter_def proxy_leave_def
    proxy_copied_rx_def proxy_copied_tx_def\<close>)


lemma serving_ok_step:
  assumes "server_step c s t" and "serving_ok s" and "goroutines_ok s"
  shows "serving_ok t"
  using assms(1)
proof (cases rule: server_step.cases)
  case (control xs remote ys strm rnd ts now)
  show ?thesis
  proof (rule handleControlConn_cases [of remote strm rnd ts now s])
    fix n al assume "handleControlConn remote strm rnd ts now s = s\<lparr>authFailures := n, alerts := al\<rparr>"
    with control assms(2) show ?thesis by (simp add: serving_ok_def)
  next
    fix i assume "handleControlConn remote strm rnd ts now s = register_client i ts now s"
    with control assms(2) show ?thesis
      by (fastforce simp: serving_ok_def register_sessions nth_append split: option.splits)
  qed
next
  case (setup_next xs sid port ports ys probe u)
  then show ?thesis using assms(2) by (simp add: serving_ok_def setup_port_frame)
next
  case (start xs port sid ys bound)
  then have "sid < length (sessions s)" using assms(3) by (simp add: goroutines_ok_def)
  with start assms(2) show ?thesis
    by (fastforce simp: serving_ok_def startProxyListener_def Let_def nth_append nth_list_update
        split: option.split)
next
  case (accept_ends xs port sid lid ys)
  then show ?thesis using assms(2) by (auto simp: serving_ok_def)
next
  case (accept_faults xs port sid lid ys)
  then show ?thesis using assms(2) by (auto simp: serving_ok_def)
next
  case (monitor xs sid ys ts)
  then show ?thesis using assms(2) by (auto simp: serving_ok_def)
qed (use assms(2) in \<open>auto simp: serving_ok_def proxy_enter_def proxy_leave_def
    proxy_copied_rx_def proxy_copied_tx_def upd_session_def close_session_def\<close>)

lemma goroutines_ok_step:
  assumes "server_step c s t" and "goroutines_ok s" and "serving_ok s"
  shows "goroutines_ok t"
  using assms(1)
proof (cases rule: server_step.cases)
  case (control xs remote ys strm rnd ts now)
  show ?thesis
  proof (rule handleControlConn_cases [of remote strm rnd ts now s])
    fix n al assume "handleControlConn remote strm rnd ts now s = s\<lparr>authFailures := n, alerts := al\<rparr>"
    with control assms(2) show ?thesis by (simp add: goroutines_ok_def)
  next
    fix i assume "handleControlConn remote strm rnd ts now s = register_client i ts now s"
    moreover have "length (sessions (register_client i ts now s)) = Suc (length (sessions s))"
      by (simp add: register_sessions split: option.split)
    ultimately show ?thesis using control assms(2)
      by (auto simp: goroutines_ok_def list_all_iff less_Suc_eq ball_Un)
  qed
next
  case (setup_next xs sid port ports ys probe u)
  then have "starting u = starting s \<or> (\<exists>q. starting u = starting s @ [(q, sid)])"
    and "setups u = setups s" and "monitors u = monitors s" and "proxying u = proxying s"
    and "sessions u = sessions s"
    by (simp_all add: setup_port_frame)
  with setup_next show ?thesis using assms(2) by (auto simp: goroutines_ok_def list_all_iff ball_Un)
next
  case (user port sid lid)
  then have "sid < length (sessions s)" using assms(3) by (auto simp: serving_ok_def)
  with user show ?thesis using assms(2) by (auto simp: goroutines_ok_def proxy_enter_def)
qed (use assms(2) in \<open>auto simp: goroutines_ok_def proxy_leave_def
    proxy_copied_rx_def proxy_copied_tx_def\<close>)

lemma streams_of_simps [simp]:
  "streams_of i [] = 0"
  "streams_of i (q # ps) = (if fst q = i then 1 else 0) + streams_of i ps"
  "streams_of i (ps @ qs) = streams_of i ps + streams_of i qs"
  by (simp_all add: streams_of_def)

lemma streams_of_fresh:
  "\<forall>q \<in> set ps. fst q \<noteq> i \<Longrightarrow> streams_of i ps = 0"
  by (simp add: streams_of_def filter_empty_conv)

lemma streams_ok_step:
  assumes "server_step c s t" and "streams_ok s" and "goroutines_ok s" and "serving_ok s"
  shows "streams_ok t"
  using assms(1)
proof (cases rule: server_step.cases)
  case (control xs remote ys strm rnd ts now)
  show ?thesis
  proof (rule handleControlConn_cases [of remote strm rnd ts now s])
    fix n al assume "handleControlConn remote strm rnd ts now s = s\<lparr>authFailures := n, alerts := al\<rparr>"
    with control assms(2) show ?thesis by (simp add: streams_ok_def)
  next
    fix i assume "handleControlConn remote strm rnd ts now s = register_client i ts now s"
    moreover have "streams_of (length (sessions s)) (proxying s) = 0"
      using assms(3) by (intro streams_of_fresh) (auto simp: goroutines_ok_def list_all_iff ball_Un)
    ultimately show ?thesis using control assms(2)
      by (auto simp: streams_ok_def register_sessions nth_append less_Suc_eq fresh_session_def
          split: option.splits)
  qed
next
  case (setup_next xs sid port ports ys probe u)
  then show ?thesis using assms(2) by (simp add: streams_ok_def setup_port_frame)
next
  case (start xs port sid ys bound)
  then show ?thesis using assms(2)
    by (auto simp: streams_ok_def startProxyListener_def Let_def split: option.split)
next
  case (user port sid lid)
  then have "sid < length (sessions s)" using assms(4) by (auto simp: serving_ok_def)
  with user show ?thesis using assms(2)
    by (auto simp: streams_ok_def proxy_enter_def upd_session_def nth_list_update)
next
  case (stream_failed xs sid ys)
  then have "sid < length (sessions s)" using assms(3) by (simp add: goroutines_ok_def)
  with stream_failed show ?thesis using assms(2)
    by (auto simp: streams_ok_def proxy_leave_def upd_session_def nth_list_update)
next
  case (proxied xs sid ys)
  then have "sid < length (sessions s)" using assms(3) by (simp add: goroutines_ok_def)
  with proxied show ?thesis using assms(2)
    by (auto simp: streams_ok_def proxy_leave_def upd_session_def nth_list_update)
qed (use assms(2) in \<open>auto simp: streams_ok_def proxy_copied_rx_def proxy_copied_tx_def
    upd_session_def close_session_def\<close>)

text \<open>Together: an inductive invariant of the server, instance of the generic interface.\<close>

lemma server_inv_step: "any_step s t \<Longrightarrow> server_inv s \<Longrightarrow> server_inv t"
  unfolding any_step_def server_inv_def
  using clients_ok_step listeners_ok_step sockets_ok_step serving_ok_step goroutines_ok_step
    streams_ok_step by blast

lemma server_inv_init: "server_inv (NewServer cfg)"
  by (simp add: server_inv_def inv_defs NewServer_def)

interpretation server: step_invariant any_step server_inv
  by unfold_locales (rule server_inv_step)

lemma reachable_inv: "server_reachable cfg s \<Longrightarrow> server_inv s"
  unfolding server_reachable_def by (rule server.reachable [OF _ server_inv_init])

end
