(* ===== verification/Server_Lifecycle.thy ===== *)
theory Server_Lifecycle
  imports Server_Steps
begin

text \<open>
  What holds of the server's resources over every interleaving, and how they can be lost. The
  schedules at the end are executable: \<open>execute\<close> performs one step of the relation, chosen by a
  command, so that a concrete interleaving is computed and its states are reachable.
\<close>

subsection \<open>Internal work is bounded\<close>

definition work :: "Server \<Rightarrow> nat" where
  "work s = sum_list (map (\<lambda>(sid, ports). 2 + 3 * length ports) (setups s))
     + 2 * length (starting s) + length (serving s) + length (monitors s)"

lemma internal_step_work:
  assumes "server_step Internal s t"
  shows "work t < work s"
  using assms
proof (cases rule: server_step.cases)
  case (setup_next xs sid port ports ys probe u)
  then have "length (starting u) \<le> Suc (length (starting s))" and "serving u = serving s"
    and "monitors u = monitors s"
    using setup_port_frame [of probe sid port s u] by auto
  with setup_next show ?thesis by (simp add: work_def)
next
  case (start xs port sid ys bound)
  then show ?thesis by (simp add: work_def startProxyListener_def Let_def split: option.split)
qed (simp_all add: work_def)

interpretation internal: ranking "server_step Internal" server_inv work
proof
  show "server_inv t" if "server_step Internal s t" and "server_inv s" for s t
    using server_inv_step [of s t] that by (auto simp: any_step_def)
qed (rule internal_step_work)

lemma config_step: "server_step c s t \<Longrightarrow> config t = config s"
  by (cases rule: server_step.cases)
    (auto simp: proxy_enter_def proxy_leave_def proxy_copied_rx_def proxy_copied_tx_def
      setup_port_frame)

lemma reachable_config: "server_reachable cfg s \<Longrightarrow> config s = cfg"
  unfolding server_reachable_def
  by (induction rule: rtranclp_induct) (auto simp: NewServer_def any_step_def config_step)

text \<open>Allocation with a system that refuses every port returns, unless the range ends at the top.\<close>

lemma allocate_returns:
  assumes "snd (GetDynamicPortRange cfg) < max_int64"
  obtains r m' where "AllocateDynamicPort cfg probe m = Some (r, m')"
proof -
  obtain lo hi where r: "GetDynamicPortRange cfg = (lo, hi)" by (metis surj_pair)
  have "min_int64 \<le> lo" using range_bounds [of cfg] by (simp add: r min_int64_def)
  from alloc_scan_least [OF this, of hi "is_used m" probe] assms r that show ?thesis
    by (auto simp: AllocateDynamicPort_def)
qed

lemma stuck_starting:
  assumes "\<And>t. \<not> server_step Internal s t"
  shows "starting s = []"
proof (rule ccontr)
  assume "starting s \<noteq> []"
  then obtain p sid ys where "starting s = [] @ (p, sid) # ys" by (cases "starting s") auto
  from server_step.start [OF this, of False] assms show False by blast
qed

lemma stuck_monitors:
  assumes "\<And>t. \<not> server_step Internal s t" and "sid \<in> set (monitors s)"
  shows "\<not> IsClosed (sessions s ! sid)"
  using server_step.monitor assms by (metis split_list)

lemma stuck_serving:
  assumes "\<And>t. \<not> server_step Internal s t" and "(p, sid, lid) \<in> set (serving s)"
    and "IsClosed (sessions s ! sid)"
  shows "l_open (sockets s ! lid)"
  using server_step.accept_ends assms by (metis split_list)

lemma stuck_setups:
  assumes "\<And>t. \<not> server_step Internal s t" and "snd (GetDynamicPortRange (config s)) < max_int64"
  shows "setups s = []"
proof (rule ccontr)
  assume "setups s \<noteq> []"
  then obtain sid ports ys where e: "setups s = [] @ (sid, ports) # ys" by (cases "setups s") auto
  show False
  proof (cases ports)
    case Nil
    with server_step.setup_done [of s "[]" sid ys] e assms(1) show False by blast
  next
    case (Cons p ps)
    obtain t where "setup_port (\<lambda>_. False) sid p s = Some t"
    proof (cases "p = 0")
      case True
      obtain r m' where "AllocateDynamicPort (config s) (\<lambda>_. False) (usedPorts s) = Some (r, m')"
        using allocate_returns [OF assms(2)] .
      with True that show thesis by (cases r) (auto simp: setup_port_def)
    qed (simp add: setup_port_def)
    with server_step.setup_next [of s "[]" sid p ps ys "\<lambda>_. False"] e Cons assms(1)
    show False by blast
  qed
qed

subsection \<open>Executable schedules\<close>

definition drop_nth :: "nat \<Rightarrow> 'a list \<Rightarrow> 'a list" where
  "drop_nth k xs = take k xs @ drop (Suc k) xs"

lemma split_nth: "k < length xs \<Longrightarrow> xs = take k xs @ (xs ! k) # drop (Suc k) xs"
  by (rule id_take_nth_drop)

datatype command =
  DoAccept string string int
  | DoLogin string string int
  | DoEnd nat
  | DoSetup nat "int list"
  | DoStart nat bool
  | DoMonitor nat string
  | DoAcceptEnds nat

text \<open>
  \<open>DoLogin i\<close> is the first pending control connection sending the reply that authenticates \<open>i\<close>;
  \<open>DoSetup k free\<close> an iteration of the \<open>k\<close>th setup while the ports in \<open>free\<close> can be bound.
\<close>

fun execute :: "command \<Rightarrow> Server \<Rightarrow> Server option" where
  "execute (DoAccept remoteIP remote now) s = Some (acceptControl remoteIP remote now s)"
| "execute (DoLogin i ts now) s =
     (if handshaking s \<noteq> [] \<and> no_colon i \<and> length i \<le> 479 \<and> validateClientConfig (config s) i
      then Some ((register_client i ts now s)\<lparr>handshaking := tl (handshaking s)\<rparr>) else None)"
| "execute (DoEnd sid) s = (if sid < length (sessions s) then Some (close_session sid s) else None)"
| "execute (DoSetup k free) s =
     (if k < length (setups s) \<and> list_all (can_listen s) free then
        (case setups s ! k of
           (sid, []) \<Rightarrow> Some (s\<lparr>setups := drop_nth k (setups s), monitors := monitors s @ [sid]\<rparr>)
         | (sid, port # ports) \<Rightarrow>
             map_option (\<lambda>t. t\<lparr>setups := take k (setups s) @ (sid, ports) # drop (Suc k) (setups s)\<rparr>)
               (setup_port (\<lambda>q. q \<in> set free) sid port s))
      else None)"
| "execute (DoStart k bound) s =
     (if k < length (starting s) \<and> (if bound then can_listen s (fst (starting s ! k)) else True)
      then Some ((startProxyListener bound (fst (starting s ! k)) (snd (starting s ! k)) s)
                   \<lparr>starting := drop_nth k (starting s)\<rparr>)
      else None)"
| "execute (DoMonitor k ts) s =
     (if k < length (monitors s) \<and> IsClosed (sessions s ! (monitors s ! k))
      then Some ((monitorSession ts (monitors s ! k) s)\<lparr>monitors := drop_nth k (monitors s)\<rparr>)
      else None)"
| "execute (DoAcceptEnds k) s =
     (if k < length (serving s)
      then (case serving s ! k of (port, sid, lid) \<Rightarrow>
              if IsClosed (sessions s ! sid) \<and> \<not> l_open (sockets s ! lid)
              then Some ((stopProxyListener port lid s)\<lparr>serving := drop_nth k (serving s)\<rparr>)
              else None)
      else None)"

fun execute_all :: "command list \<Rightarrow> Server \<Rightarrow> Server option" where
  "execute_all [] s = Some s"
| "execute_all (c # cs) s = (case execute c s of None \<Rightarrow> None | Some t \<Rightarrow> execute_all cs t)"

lemma login_registers:
  assumes "no_colon i" and "length i \<le> 479" and "validateClientConfig (config s) i"
  obtains strm rnd where "handleControlConn remote strm rnd ts now s = register_client i ts now s"
proof -
  let ?r = "raw_response (Token (config s)) [] i"
  have "fst (authenticateStream (config s) (Some []) (new_conn [Seg ?r] 1)) = (i, True)"
    using assms
    by (subst authenticate_verdict) (simp_all add: new_conn_def control_verdict_True)
  with that [of "Some (new_conn [Seg ?r] 1)" "Some []"] show ?thesis
    by (simp add: handleControlConn_def)
qed

lemma execute_step:
  assumes "execute c s = Some t"
  shows "\<exists>l. l \<noteq> Fault \<and> server_step l s t"
proof (cases c)
  case (DoAccept ip r now)
  with assms show ?thesis using server_step.accept [of s ip r now] by auto
next
  case (DoLogin i ts now)
  with assms have l: "no_colon i" "length i \<le> 479" "validateClientConfig (config s) i"
    and t: "t = (register_client i ts now s)\<lparr>handshaking := tl (handshaking s)\<rparr>"
    and h: "handshaking s = [] @ hd (handshaking s) # tl (handshaking s)"
    by (auto split: if_splits)
  obtain strm rnd where "handleControlConn (hd (handshaking s)) strm rnd ts now s
      = register_client i ts now s"
    using login_registers [OF l] .
  with server_step.control [OF h, of strm rnd ts now] t show ?thesis by auto
next
  case (DoEnd sid)
  with assms show ?thesis using server_step.session_ends [of sid s] by (auto split: if_splits)
next
  case (DoSetup k free)
  with assms have k: "k < length (setups s)" and free: "\<And>q. q \<in> set free \<Longrightarrow> can_listen s q"
    by (auto simp: list_all_iff split: if_splits)
  obtain sid ports where e: "setups s ! k = (sid, ports)" by (cases "setups s ! k")
  note sp = split_nth [OF k, unfolded e]
  show ?thesis
  proof (cases ports)
    case Nil
    with sp have "setups s = take k (setups s) @ (sid, []) # drop (Suc k) (setups s)" by simp
    from server_step.setup_done [OF this] Nil e assms DoSetup k show ?thesis
      by (auto simp: drop_nth_def split: if_splits)
  next
    case (Cons p ps)
    with e assms DoSetup obtain u where "setup_port (\<lambda>q. q \<in> set free) sid p s = Some u"
      and "t = u\<lparr>setups := take k (setups s) @ (sid, ps) # drop (Suc k) (setups s)\<rparr>"
      by (auto split: if_splits)
    with server_step.setup_next [OF sp [unfolded Cons], of "\<lambda>q. q \<in> set free"] free
    show ?thesis by blast
  qed
next
  case (DoStart k b)
  with assms have k: "k < length (starting s)" by (auto split: if_splits)
  obtain p sid where e: "starting s ! k = (p, sid)" by (cases "starting s ! k")
  from server_step.start [OF split_nth [OF k, unfolded e], of b] e assms DoStart show ?thesis
    by (auto simp: drop_nth_def split: if_splits)
next
  case (DoMonitor k ts)
  with assms have k: "k < length (monitors s)" by (auto split: if_splits)
  from server_step.monitor [OF split_nth [OF k], of ts] assms DoMonitor show ?thesis
    by (auto simp: drop_nth_def split: if_splits)
next
  case (DoAcceptEnds k)
  with assms have k: "k < length (serving s)" by (auto split: if_splits)
  obtain p sid lid where e: "serving s ! k = (p, sid, lid)" by (cases "serving s ! k")
  from server_step.accept_ends [OF split_nth [OF k, unfolded e]] e assms DoAcceptEnds k
  show ?thesis by (auto simp: drop_nth_def split: if_splits)
qed

lemma execute_all_reachable:
  "server_reachable cfg s \<Longrightarrow> execute_all cs s = Some t \<Longrightarrow> server_reachable cfg t"
proof (induction cs arbitrary: s)
  case (Cons c cs)
  then obtain u where "execute c s = Some u" and u: "execute_all cs u = Some t"
    by (auto split: option.splits)
  then have "any_step s u" using execute_step [of c s u] by (auto simp: any_step_def)
  with Cons.prems(1) have "server_reachable cfg u"
    unfolding server_reachable_def by (rule rtranclp.rtrancl_into_rtrancl)
  then show ?case using u by (rule Cons.IH)
qed simp

lemma execute_all_from_start:
  "execute_all cs (NewServer cfg) = Some t \<Longrightarrow> server_reachable cfg t"
  by (rule execute_all_reachable [of cfg "NewServer cfg"]) (simp_all add: server_reachable_def)

text \<open>A server with one client, and one login of it.\<close>

definition one_client :: "int list \<Rightarrow> ServerConfig" where
  "one_client ports = zero_server\<lparr>Token := ''t'', DynamicPortMin := 40000, DynamicPortMax := 40001,
     Clients := [\<lparr>ClientID = ''a'', Ports = ports\<rparr>]\<rparr>"

definition log_in :: "string \<Rightarrow> command list" where
  "log_in i = [DoAccept ''h'' ''h:1'' 0, DoLogin i [] 0]"

definition up_80 :: "command list" where
  "up_80 = log_in ''a'' @ [DoSetup 0 [], DoSetup 0 [], DoStart 0 True]"

subsection \<open>Properties\<close>

text \<open>
  C1. In every reachable state: a registered client has a session of that identifier whose setup is
  under way or whose monitor waits for its end; a listener in the map is open and on its port; an
  open socket is the only one on its port and has an accept loop; and the number of active
  streams of a session is the number of connections being proxied for it.
\<close>

theorem server_invariant:
  assumes "server_reachable cfg s"
  shows "(map_of (clients s) i = Some sid \<longrightarrow>
      sid < length (sessions s) \<and> ID (sessions s ! sid) = i
      \<and> (sid \<in> set (monitors s) \<or> sid \<in> fst ` set (setups s)))
    \<and> (map_of (listeners s) p = Some lid \<longrightarrow>
        lid < length (sockets s) \<and> l_port (sockets s ! lid) = p \<and> l_open (sockets s ! lid))
    \<and> (k < length (sockets s) \<and> l_open (sockets s ! k) \<longrightarrow>
        (\<exists>sid'. (l_port (sockets s ! k), sid', k) \<in> set (serving s))
        \<and> (\<forall>k' < length (sockets s). l_open (sockets s ! k')
              \<longrightarrow> l_port (sockets s ! k') = l_port (sockets s ! k) \<longrightarrow> k' = k))
    \<and> (j < length (sessions s) \<longrightarrow>
        ActiveStreams (sessions s ! j) = of_nat (streams_of j (proxying s)))"
  using reachable_inv [OF assms]
  by (auto simp: server_inv_def clients_ok_def listeners_ok_def sockets_ok_def streams_ok_def)

lemma server_invariant_witness:
  "\<exists>s. execute_all up_80 (NewServer (one_client [80])) = Some s
     \<and> map_of (listeners s) 80 = Some 0 \<and> l_open (sockets s ! 0) \<and> 0 \<in> set (monitors s)"
proof -
  have "map_option (\<lambda>s. (map_of (listeners s) 80, map_of (clients s) ''a'', setups s))
      (execute_all up_80 (NewServer (one_client [80]))) = Some (Some 0, Some 0, [])"
    by code_simp
  then obtain s where e: "execute_all up_80 (NewServer (one_client [80])) = Some s"
    and m: "map_of (listeners s) 80 = Some 0" "map_of (clients s) ''a'' = Some 0" "setups s = []"
    by auto
  from server_invariant [OF execute_all_from_start [OF e], of "''a''" 0 80 0] e m
  show ?thesis by auto
qed

text \<open>
  When no goroutine of a session is left, everything but the reservations of dynamic ports has been
  given back: no client is registered, no listener is in the map, no socket is open.
\<close>

theorem quiescent_server_is_clean:
  assumes "server_reachable cfg s"
    and "setups s = []" and "starting s = []" and "serving s = []" and "monitors s = []"
  shows "map_of (clients s) i = None \<and> map_of (listeners s) p = None \<and> \<not> listening s p"
proof -
  have inv: "clients_ok s" "listeners_ok s" "sockets_ok s"
    using reachable_inv [OF assms(1)] by (simp_all add: server_inv_def)
  have none: "\<not> l_open (sockets s ! lid)" if "lid < length (sockets s)" for lid
    using inv(3) that assms(4) by (auto simp: sockets_ok_def)
  have "map_of (clients s) i = None"
    using inv(1) assms(2,5) by (cases "map_of (clients s) i") (auto simp: clients_ok_def)
  moreover have "map_of (listeners s) p = None"
    using inv(2) none by (cases "map_of (listeners s) p") (auto simp: listeners_ok_def)
  ultimately show ?thesis using none by (auto simp: listening_iff)
qed

lemma quiescent_server_is_clean_witness:
  "\<exists>s. execute_all (up_80 @ [DoEnd 0, DoMonitor 0 [], DoAcceptEnds 0]) (NewServer (one_client [80])) = Some s
     \<and> length (sessions s) = 1 \<and> \<not> listening s 80"
proof -
  let ?cs = "up_80 @ [DoEnd 0, DoMonitor 0 [], DoAcceptEnds 0]"
  have "map_option (\<lambda>s. (length (sessions s), setups s, starting s, serving s, monitors s))
      (execute_all ?cs (NewServer (one_client [80]))) = Some (1, [], [], [], [])"
    by code_simp
  then obtain s where e: "execute_all ?cs (NewServer (one_client [80])) = Some s"
    and m: "length (sessions s) = 1" "setups s = []" "starting s = []" "serving s = []" "monitors s = []"
    by auto
  from quiescent_server_is_clean [OF execute_all_from_start [OF e] m(2-)] e m(1) show ?thesis
    by auto
qed



end
