(* ===== verification/Server_Faults.thy ===== *)
theory Server_Faults
  imports Server_Lifecycle
begin

text \<open>
  Interleavings in which the server loses track of a session, a listener or a dynamic port. Each
  theorem says what the situation leads to in every continuation; its witness is a schedule of
  ordinary steps that reaches the situation.
\<close>

definition usual_step :: "Server \<Rightarrow> Server \<Rightarrow> bool" where
  "usual_step s t \<longleftrightarrow> (\<exists>c. c \<noteq> Fault \<and> server_step c s t)"

lemma usual_any: "usual_step s t \<Longrightarrow> any_step s t"
  by (auto simp: usual_step_def any_step_def)

subsection \<open>An open listener that is not in the map\<close>

definition orphan :: "nat \<Rightarrow> int \<Rightarrow> Server \<Rightarrow> bool" where
  "orphan lid port s \<longleftrightarrow> lid < length (sockets s) \<and> l_open (sockets s ! lid)
     \<and> l_port (sockets s ! lid) = port \<and> map_of (listeners s) port \<noteq> Some lid"

lemma orphan_step:
  assumes "server_step c s t" and "c \<noteq> Fault" and "server_inv s" and "orphan lid port s"
  shows "orphan lid port t"
  using assms(1)
proof (cases rule: server_step.cases)
  case (setup_next xs sid p ports ys probe u)
  then show ?thesis using assms(4) by (simp add: orphan_def setup_port_frame)
next
  case (start xs p sid ys bound)
  then show ?thesis using assms(4)
    by (auto simp: orphan_def startProxyListener_def Let_def nth_append split: option.split)
next
  case (monitor xs sid ys ts)
  have "\<not> mapped_to s ps lid" for ps
    using assms(3,4) by (auto simp: mapped_to_def list_ex_iff orphan_def server_inv_def listeners_ok_def)
  with monitor show ?thesis using assms(4) by (auto simp: orphan_def)
next
  case (accept_ends xs p sid l ys)
  then show ?thesis using assms(4) by (auto simp: orphan_def)
qed (use assms(2,4) in \<open>auto simp: orphan_def proxy_enter_def proxy_leave_def
    proxy_copied_rx_def proxy_copied_tx_def\<close>)

interpretation orphan: step_invariant usual_step "\<lambda>s. server_inv s \<and> orphan lid port s" for lid port
proof
  show "server_inv t \<and> orphan lid port t"
    if "usual_step s t" and "server_inv s \<and> orphan lid port s" for s t
    using that server_inv_step [OF usual_any] orphan_step by (auto simp: usual_step_def)
qed

subsection \<open>A listener in the map that no session will close\<close>

definition held_sessions :: "Server \<Rightarrow> nat set" where
  "held_sessions s = set (monitors s) \<union> fst ` set (setups s)"

definition abandoned :: "nat \<Rightarrow> int \<Rightarrow> Server \<Rightarrow> bool" where
  "abandoned lid port s \<longleftrightarrow> map_of (listeners s) port = Some lid
     \<and> (\<forall>sid \<in> held_sessions s. port \<notin> set (ActivePorts (sessions s ! sid)))
     \<and> (\<forall>(p, sid, l) \<in> set (serving s). p = port \<longrightarrow> l = lid)"

lemma held_below: "server_inv s \<Longrightarrow> sid \<in> held_sessions s \<Longrightarrow> sid < length (sessions s)"
  by (auto simp: server_inv_def goroutines_ok_def held_sessions_def list_all_iff ball_Un)

lemma abandoned_step:
  assumes "server_step c s t" and "c \<noteq> Fault" and "server_inv s" and "abandoned lid port s"
  shows "abandoned lid port t"
  using assms(1)
proof (cases rule: server_step.cases)
  case (control xs remote ys strm rnd ts now)
  show ?thesis
  proof (rule handleControlConn_cases [of remote strm rnd ts now s])
    fix n al assume "handleControlConn remote strm rnd ts now s = s\<lparr>authFailures := n, alerts := al\<rparr>"
    with control assms(4) show ?thesis by (simp add: abandoned_def held_sessions_def)
  next
    fix i assume r: "handleControlConn remote strm rnd ts now s = register_client i ts now s"
    have "held_sessions t = insert (length (sessions s)) (held_sessions s)"
      using control r by (simp add: held_sessions_def)
    moreover have "ActivePorts (sessions t ! sid) = ActivePorts (sessions s ! sid)"
      if "sid \<in> held_sessions s" for sid
      using control r held_below [OF assms(3) that]
      by (simp add: register_sessions nth_append split: option.split)
    moreover have "ActivePorts (sessions t ! length (sessions s)) = []"
      using control r by (simp add: register_sessions nth_append fresh_session_def split: option.split)
    ultimately show ?thesis using control r assms(4) by (simp add: abandoned_def)
  qed
next
  case (setup_next xs sid p ports ys probe u)
  then show ?thesis using assms(4) by (auto simp: abandoned_def held_sessions_def setup_port_frame)
next
  case (start xs p sid ys bound)
  show ?thesis
  proof (cases "map_of (listeners s) p = None \<and> bound")
    case True
    then have "p \<noteq> port" using assms(4) by (auto simp: abandoned_def)
    moreover have "ActivePorts (sessions t ! j) = ActivePorts (sessions s ! j)
        \<or> ActivePorts (sessions t ! j) = ActivePorts (sessions s ! j) @ [p]" for j
      using start True by (cases "j = sid"; cases "sid < length (sessions s)")
        (simp_all add: startProxyListener_def Let_def list_update_beyond)
    then have "port \<in> set (ActivePorts (sessions t ! j)) \<Longrightarrow> port \<in> set (ActivePorts (sessions s ! j))" for j
      using \<open>p \<noteq> port\<close> by (metis Un_iff empty_iff empty_set set_ConsD set_append)
    ultimately show ?thesis using start True assms(4)
      by (auto simp: abandoned_def held_sessions_def startProxyListener_def Let_def)
  next
    case False
    then have "startProxyListener bound p sid s = s"
      by (auto simp: startProxyListener_def split: option.split)
    with start assms(4) show ?thesis by (simp add: abandoned_def held_sessions_def)
  qed
next
  case (monitor xs sid ys ts)
  then show ?thesis using assms(4) by (auto simp: abandoned_def held_sessions_def)
next
  case (accept_ends xs p sid l ys)
  then have "p \<noteq> port"
    using assms(3,4) by (auto simp: abandoned_def server_inv_def listeners_ok_def)
  with accept_ends show ?thesis using assms(4) by (auto simp: abandoned_def held_sessions_def)
qed (use assms(2,4) in \<open>auto simp: abandoned_def held_sessions_def proxy_enter_def proxy_leave_def
    proxy_copied_rx_def proxy_copied_tx_def upd_session_def close_session_def\<close>)

interpretation abandoned: step_invariant usual_step "\<lambda>s. server_inv s \<and> abandoned lid port s" for lid port
proof
  show "server_inv t \<and> abandoned lid port t"
    if "usual_step s t" and "server_inv s \<and> abandoned lid port s" for s t
    using that server_inv_step [OF usual_any] abandoned_step by (auto simp: usual_step_def)
qed

subsection \<open>A dynamic port that stays reserved\<close>

definition leaked :: "int \<Rightarrow> Server \<Rightarrow> bool" where
  "leaked port s \<longleftrightarrow> is_used (usedPorts s) port \<and> port \<noteq> 0
     \<and> list_all (\<lambda>c. port \<notin> set (Ports c)) (Clients (config s))
     \<and> list_all (\<lambda>(sid, ports). port \<notin> set ports) (setups s)
     \<and> list_all (\<lambda>(p, sid). p \<noteq> port) (starting s)
     \<and> list_all (\<lambda>(p, sid, lid). p \<noteq> port) (serving s)
     \<and> list_all (\<lambda>c. port \<notin> set (ActivePorts c)) (sessions s)"

lemma list_all_update_same:
  "list_all P xs \<Longrightarrow> (i < length xs \<Longrightarrow> P (xs ! i) \<Longrightarrow> P y) \<Longrightarrow> list_all P (xs[i := y])"
  by (cases "i < length xs") (auto simp: list_all_length nth_list_update list_update_beyond)

lemma setup_port_leaked:
  assumes "setup_port probe sid p s = Some u" and "is_used (usedPorts s) port"
    and "p \<noteq> port" and "list_all (\<lambda>(p, sid). p \<noteq> port) (starting s)"
  shows "is_used (usedPorts u) port \<and> list_all (\<lambda>(p, sid). p \<noteq> port) (starting u)"
proof (cases "p = 0")
  case True
  then obtain r m where a: "AllocateDynamicPort (config s) probe (usedPorts s) = Some (r, m)"
    using assms(1) by (auto simp: setup_port_def split: option.splits)
  show ?thesis
  proof (cases r)
    case (Inl e)
    with a allocate_result [OF a] assms True show ?thesis by (auto simp: setup_port_def)
  next
    case (Inr q)
    with allocate_result [OF a] have "\<not> is_used (usedPorts s) q" "m = AList.update q True (usedPorts s)"
      by simp_all
    with a assms True Inr show ?thesis by (auto simp: setup_port_def)
  qed
qed (use assms in \<open>auto simp: setup_port_def\<close>)

lemma leaked_step:
  assumes "server_step c s t" and "leaked port s" and "server_inv s"
  shows "leaked port t"
  using assms(1)
proof (cases rule: server_step.cases)
  case (control xs remote ys strm rnd ts now)
  show ?thesis
  proof (rule handleControlConn_cases [of remote strm rnd ts now s])
    fix n al assume "handleControlConn remote strm rnd ts now s = s\<lparr>authFailures := n, alerts := al\<rparr>"
    with control assms(2) show ?thesis by (simp add: leaked_def)
  next
    fix i assume r: "handleControlConn remote strm rnd ts now s = register_client i ts now s"
    have "port \<notin> set (setup_ports (config s) i)"
      using assms(2) by (auto simp: leaked_def setup_ports_def list_all_iff)
    with control r assms(2) show ?thesis
      by (auto simp: leaked_def register_sessions fresh_session_def list_all_update_same
          split: option.split)
  qed
next
  case (setup_next xs sid p ports ys probe u)
  then show ?thesis
    using assms(2) setup_port_leaked [of probe sid p s u port]
    by (simp add: leaked_def setup_port_frame)
next
  case (start xs p sid ys bound)
  then have "p \<noteq> port" using assms(2) by (simp add: leaked_def)
  with start show ?thesis using assms(2)
    by (auto simp: leaked_def startProxyListener_def Let_def list_all_update_same split: option.split)
next
  case (monitor xs sid ys ts)
  have "sid < length (sessions s)" using monitor assms(3) by (simp add: server_inv_def goroutines_ok_def)
  then have "port \<notin> set (ActivePorts (sessions s ! sid))"
    using assms(2) by (simp add: leaked_def list_all_length)
  with monitor show ?thesis using assms(2)
    by (simp add: leaked_def monitorSession_def Let_def)
next
  case (accept_ends xs p sid l ys)
  then show ?thesis using assms(2)
    by (auto simp: leaked_def stopProxyListener_def close_listener_def ReleaseDynamicPort_def Let_def)
next
  case (accept_faults xs p sid l ys)
  then show ?thesis using assms(2)
    by (auto simp: leaked_def stopProxyListener_def close_listener_def ReleaseDynamicPort_def Let_def)
qed (use assms(2) in \<open>auto simp: leaked_def proxy_enter_def proxy_leave_def upd_session_def
    proxy_copied_rx_def proxy_copied_tx_def close_session_def acceptControl_def
    list_all_update_same split: prod.split bool.split\<close>)

interpretation leaked: step_invariant any_step "\<lambda>s. server_inv s \<and> leaked port s" for port
proof
  show "server_inv t \<and> leaked port t"
    if "any_step s t" and "server_inv s \<and> leaked port s" for s t
    using that server_inv_step [OF that(1)] leaked_step by (auto simp: any_step_def)
qed

text \<open>Two clients, each with one dynamic port.\<close>

definition two_dynamic :: ServerConfig where
  "two_dynamic = zero_server\<lparr>Token := ''t'', DynamicPortMin := 40000, DynamicPortMax := 40001,
     Clients := [\<lparr>ClientID = ''a'', Ports = [0]\<rparr>, \<lparr>ClientID = ''b'', Ports = [0]\<rparr>]\<rparr>"

subsection \<open>Properties\<close>

text \<open>
  C22. A client that reconnects loses its registration: registering the new session closes the old one,
  whose monitor then deletes the map entry by identifier, although it belongs to the new session.
  From then on the new session is live and unknown to the server's map.
\<close>

theorem reconnect_loses_registration:
  fixes ts ts' :: string and now :: int
  assumes "server_reachable cfg s" and "map_of (clients s) i = Some old"
  defines "t \<equiv> register_client i ts now s"
  defines "u \<equiv> monitorSession ts' old t"
  shows "IsClosed (sessions t ! old) \<and> old \<in> held_sessions t
    \<and> map_of (clients t) i = Some (length (sessions s)) \<and> map_of (clients u) i = None
    \<and> ID (sessions u ! length (sessions s)) = i \<and> \<not> IsClosed (sessions u ! length (sessions s))"
proof -
  have c: "old < length (sessions s)" "ID (sessions s ! old) = i" "old \<in> held_sessions s"
    using reachable_inv [OF assms(1)] assms(2)
    by (auto simp: server_inv_def clients_ok_def held_sessions_def)
  then show ?thesis unfolding t_def u_def using assms(2)
    by (auto simp: register_sessions nth_append fresh_session_def held_sessions_def)
qed

lemma reconnect_loses_registration_witness:
  "\<exists>s. execute_all (log_in ''a'' @ [DoSetup 0 []]) (NewServer (one_client [])) = Some s
     \<and> map_of (clients (monitorSession [] 0 (register_client ''a'' [] 0 s))) ''a'' = None
     \<and> \<not> IsClosed (sessions (monitorSession [] 0 (register_client ''a'' [] 0 s)) ! 1)"
proof -
  let ?cs = "log_in ''a'' @ [DoSetup 0 []]"
  have "map_option (\<lambda>s. (map_of (clients s) ''a'', length (sessions s)))
      (execute_all ?cs (NewServer (one_client []))) = Some (Some 0, 1)"
    by code_simp
  then obtain s where e: "execute_all ?cs (NewServer (one_client [])) = Some s"
    and m: "map_of (clients s) ''a'' = Some 0" "length (sessions s) = 1"
    by auto
  show ?thesis
    using reconnect_loses_registration [OF execute_all_from_start [OF e] m(1), of "[]" 0 "[]"] e
    unfolding m(2) by blast
qed

text \<open>
  A client can have two live sessions at the same time, although registering a session is meant to
  close the one before: three logins in a row reach such a state.
\<close>

theorem two_live_sessions_reachable:
  "\<exists>s. server_reachable (one_client []) s \<and> length (sessions s) = 3
     \<and> ID (sessions s ! 1) = ID (sessions s ! 2)
     \<and> \<not> IsClosed (sessions s ! 1) \<and> \<not> IsClosed (sessions s ! 2) \<and> set (monitors s) = {1, 2}"
proof -
  let ?cs = "log_in ''a'' @ [DoSetup 0 []] @ log_in ''a'' @ [DoSetup 0 [], DoMonitor 0 []]
      @ log_in ''a'' @ [DoSetup 0 []]"
  have "map_option (\<lambda>s. (map (\<lambda>c. (ID c, IsClosed c)) (sessions s), monitors s))
      (execute_all ?cs (NewServer (one_client [])))
      = Some ([(''a'', True), (''a'', False), (''a'', False)], [1, 2])"
    by code_simp
  then obtain s where e: "execute_all ?cs (NewServer (one_client [])) = Some s"
    and m: "map (\<lambda>c. (ID c, IsClosed c)) (sessions s) = [(''a'', True), (''a'', False), (''a'', False)]"
      "monitors s = [1, 2]"
    by auto
  have "length (sessions s) = 3" using arg_cong [OF m(1), of length] by simp
  moreover have "(ID (sessions s ! k), IsClosed (sessions s ! k))
      = [(''a'', True), (''a'', False), (''a'', False)] ! k" if "k < 3" for k
    using that m(1) \<open>length (sessions s) = 3\<close> by (metis (no_types, lifting) nth_map)
  from this [of 1] this [of 2] have "ID (sessions s ! 1) = ID (sessions s ! 2)"
    "\<not> IsClosed (sessions s ! 1)" "\<not> IsClosed (sessions s ! 2)"
    by simp_all
  ultimately show ?thesis using execute_all_from_start [OF e] m(2)
    by (intro exI [of _ s]) auto
qed

text \<open>
  C23. A deferred clean-up that runs after the port has been taken over deletes the map entry of the new
  listener. An open listener that is not in the map is lost: no later step but a fault of its own
  \<^verbatim>\<open>Accept\<close> closes it, it never gets into the map again, and nothing can listen on its port.
\<close>

theorem lost_listener_is_permanent:
  assumes "server_reachable cfg s" and "orphan lid port s" and "usual_step\<^sup>*\<^sup>* s t"
  shows "orphan lid port t \<and> \<not> can_listen t port"
  using orphan.reachable [OF assms(3)] reachable_inv [OF assms(1)] assms(2)
  by (auto simp: orphan_def can_listen_def listening_iff)

definition lose_listener :: "command list" where
  "lose_listener = up_80 @ [DoEnd 0, DoMonitor 0 []] @ log_in ''a''
     @ [DoSetup 0 [], DoSetup 0 [], DoStart 0 True, DoAcceptEnds 0]"

lemma lost_listener_is_permanent_witness:
  "\<exists>s. execute_all lose_listener (NewServer (one_client [80])) = Some s
     \<and> (\<forall>t. usual_step\<^sup>*\<^sup>* s t \<longrightarrow> \<not> can_listen t 80)"
proof -
  have "map_option (\<lambda>s. (length (sockets s), l_open (sockets s ! 1), l_port (sockets s ! 1),
        map_of (listeners s) 80))
      (execute_all lose_listener (NewServer (one_client [80]))) = Some (2, True, 80, None)"
    by code_simp
  then obtain s where e: "execute_all lose_listener (NewServer (one_client [80])) = Some s"
    and "orphan 1 80 s"
    by (auto simp: orphan_def)
  with lost_listener_is_permanent [OF execute_all_from_start [OF e], of 1 80] show ?thesis by blast
qed

text \<open>
  C24. A session that ends before its proxy listeners are started leaves them behind: the monitor has run
  when the goroutine opens the port. Such a listener keeps its map entry in every continuation
  (faults of \<^verbatim>\<open>Accept\<close> apart), and every later attempt to serve the port is turned away.
\<close>

theorem late_listener_blocks_port:
  assumes "server_reachable cfg s" and "abandoned lid port s" and "usual_step\<^sup>*\<^sup>* s t"
  shows "map_of (listeners t) port = Some lid \<and> l_open (sockets t ! lid)
    \<and> startProxyListener b port sid t = t"
proof -
  have "abandoned lid port t" and "server_inv t"
    using abandoned.reachable [OF assms(3)] reachable_inv [OF assms(1)] assms(2) by blast+
  then show ?thesis
    by (auto simp: abandoned_def server_inv_def listeners_ok_def startProxyListener_def)
qed

definition late_listener :: "command list" where
  "late_listener = log_in ''a''
     @ [DoSetup 0 [], DoSetup 0 [], DoEnd 0, DoMonitor 0 [], DoStart 0 True]"

lemma late_listener_blocks_port_witness:
  "\<exists>s. execute_all late_listener (NewServer (one_client [80])) = Some s
     \<and> list_all IsClosed (sessions s) \<and> monitors s = [] \<and> setups s = []
     \<and> (\<forall>t. usual_step\<^sup>*\<^sup>* s t \<longrightarrow> startProxyListener True 80 1 t = t)"
proof -
  have "map_option (\<lambda>s. (list_all IsClosed (sessions s), monitors s, setups s,
        map_of (listeners s) 80, serving s))
      (execute_all late_listener (NewServer (one_client [80]))) = Some (True, [], [], Some 0, [(80, 0, 0)])"
    by code_simp
  then obtain s where e: "execute_all late_listener (NewServer (one_client [80])) = Some s"
    and m: "list_all IsClosed (sessions s)" "monitors s = []" "setups s = []" and "abandoned 0 80 s"
    by (auto simp: abandoned_def held_sessions_def)
  with late_listener_blocks_port [OF execute_all_from_start [OF e], of 0 80] show ?thesis by blast
qed

text \<open>
  C25. A dynamic port whose listener could not be opened stays reserved for ever: once no goroutine and no
  session refers to the port, no step releases it or hands it out again.
\<close>

theorem leaked_port_stays_reserved:
  assumes "server_reachable cfg s" and "leaked port s" and "any_step\<^sup>*\<^sup>* s t"
  shows "is_used (usedPorts t) port \<and> list_all (\<lambda>(p, sid). p \<noteq> port) (starting t)"
proof -
  have "leaked port t"
    using leaked.reachable [OF assms(3)] reachable_inv [OF assms(1)] assms(2) by blast
  then show ?thesis by (simp add: leaked_def)
qed

definition leak_port :: "command list" where
  "leak_port = log_in ''a''
     @ [DoSetup 0 [40000], DoSetup 0 [], DoStart 0 False, DoEnd 0, DoMonitor 0 []]"

lemma leaked_port_stays_reserved_witness:
  "\<exists>s. execute_all leak_port (NewServer (one_client [0])) = Some s
     \<and> starting s = [] \<and> serving s = [] \<and> monitors s = []
     \<and> (\<forall>t. any_step\<^sup>*\<^sup>* s t \<longrightarrow> is_used (usedPorts t) 40000)"
proof -
  have "map_option (\<lambda>s. (starting s, serving s, monitors s, setups s, map ActivePorts (sessions s),
        is_used (usedPorts s) 40000, map Ports (Clients (config s))))
      (execute_all leak_port (NewServer (one_client [0]))) = Some ([], [], [], [], [[]], True, [[0]])"
    by code_simp
  then obtain s where e: "execute_all leak_port (NewServer (one_client [0])) = Some s"
    and m: "starting s = []" "serving s = []" "monitors s = []" and "leaked 40000 s"
    by (auto simp: leaked_def map_eq_Cons_conv list_all_iff)
  with leaked_port_stays_reserved [OF execute_all_from_start [OF e], of 40000] show ?thesis by blast
qed

text \<open>
  The same dynamic port can be handed to two live sessions: the monitor and the accept loop of an
  ended session both release its port, and the second release cancels a reservation made between
  the two.
\<close>

theorem dynamic_port_reserved_twice:
  "\<exists>s. server_reachable two_dynamic s \<and> starting s = [(40000, 1), (40000, 2)]
     \<and> \<not> IsClosed (sessions s ! 1) \<and> \<not> IsClosed (sessions s ! 2)
     \<and> ID (sessions s ! 1) \<noteq> ID (sessions s ! 2)"
proof -
  let ?cs = "log_in ''a'' @ [DoSetup 0 [40000], DoSetup 0 [], DoStart 0 True, DoEnd 0, DoMonitor 0 []]
      @ log_in ''a'' @ [DoSetup 0 [40000], DoAcceptEnds 0]
      @ log_in ''b'' @ [DoSetup 1 [40000]]"
  have "map_option (\<lambda>s. (starting s, IsClosed (sessions s ! 1), IsClosed (sessions s ! 2),
        ID (sessions s ! 1), ID (sessions s ! 2)))
      (execute_all ?cs (NewServer two_dynamic))
      = Some ([(40000, 1), (40000, 2)], False, False, ''a'', ''b'')"
    by code_simp
  then obtain s where e: "execute_all ?cs (NewServer two_dynamic) = Some s"
    and m: "starting s = [(40000, 1), (40000, 2)]" "\<not> IsClosed (sessions s ! 1)"
      "\<not> IsClosed (sessions s ! 2)" "ID (sessions s ! 1) = ''a''" "ID (sessions s ! 2) = ''b''"
    by auto
  show ?thesis by (rule exI [of _ s]) (use execute_all_from_start [OF e] m in auto)
qed

end
