(* ===== verification/Server_Orderly.thy ===== *)
theory Server_Orderly
  imports Server_Faults
begin

text \<open>
  The server under orderly use: fixed ports, no port shared by two clients, a client that logs in
  only when nothing of its former session is left, and no session that ends before its listeners
  are up. Then the map of clients is exactly the live sessions and the map of listeners exactly the
  open sockets. The schedules of \<^verbatim>\<open>Server_Faults\<close> show that none of the conditions can be dropped.
\<close>

definition ports_disjoint :: "ServerConfig \<Rightarrow> bool" where
  "ports_disjoint cfg \<longleftrightarrow> list_all (\<lambda>c. 0 \<notin> set (Ports c)
     \<and> list_all (\<lambda>d. ClientID c = ClientID d \<or> set (Ports c) \<inter> set (Ports d) = {}) (Clients cfg))
     (Clients cfg)"

lemma disjoint_ports:
  assumes "ports_disjoint cfg" and "p \<in> set (setup_ports cfg i)"
  shows "p \<noteq> 0" and "p \<in> set (setup_ports cfg j) \<Longrightarrow> i = j"
proof -
  have of_client: "\<exists>c \<in> set (Clients cfg). ClientID c = k \<and> p \<in> set (Ports c)"
    if "p \<in> set (setup_ports cfg k)" for k
    using that by (auto simp: setup_ports_def)
  obtain c where c: "c \<in> set (Clients cfg)" "ClientID c = i" "p \<in> set (Ports c)"
    using of_client [OF assms(2)] by blast
  with assms(1) show "p \<noteq> 0" by (auto simp: ports_disjoint_def list_all_iff)
  assume "p \<in> set (setup_ports cfg j)"
  then obtain d where "d \<in> set (Clients cfg)" "ClientID d = j" "p \<in> set (Ports d)"
    using of_client by blast
  with c assms(1) show "i = j" by (auto simp: ports_disjoint_def list_all_iff)
qed

text \<open>The sessions some goroutine other than a proxied connection still works for.\<close>

definition active :: "Server \<Rightarrow> nat set" where
  "active s = held_sessions s \<union> {sid. \<exists>p. (p, sid) \<in> set (starting s)}
     \<union> {sid. \<exists>p lid. (p, sid, lid) \<in> set (serving s)}"

definition orderly_step :: "Server \<Rightarrow> Server \<Rightarrow> bool" where
  "orderly_step s t \<longleftrightarrow> usual_step s t
     \<and> (length (sessions s) < length (sessions t) \<longrightarrow>
          (\<forall>sid \<in> active s. ID (sessions s ! sid) \<noteq> ID (last (sessions t))))
     \<and> (\<forall>sid \<in> set (monitors s) - set (monitors t). sid \<notin> snd ` set (starting s))"

definition one_each :: "Server \<Rightarrow> bool" where
  "one_each s \<longleftrightarrow> (\<forall>a \<in> active s. \<forall>b \<in> active s. ID (sessions s ! a) = ID (sessions s ! b) \<longrightarrow> a = b)"

definition own_ports :: "Server \<Rightarrow> bool" where
  "own_ports s \<longleftrightarrow>
     (\<forall>sid < length (sessions s). set (ActivePorts (sessions s ! sid)) \<subseteq> set (setup_ports (config s) (ID (sessions s ! sid))))
     \<and> (\<forall>(sid, ps) \<in> set (setups s). set ps \<subseteq> set (setup_ports (config s) (ID (sessions s ! sid))))
     \<and> (\<forall>(p, sid) \<in> set (starting s). p \<in> set (setup_ports (config s) (ID (sessions s ! sid))))"

definition starting_held :: "Server \<Rightarrow> bool" where
  "starting_held s \<longleftrightarrow> (\<forall>(p, sid) \<in> set (starting s). sid \<in> held_sessions s)"

definition serving_held :: "Server \<Rightarrow> bool" where
  "serving_held s \<longleftrightarrow> (\<forall>(p, sid, lid) \<in> set (serving s).
     (l_open (sockets s ! lid) \<longleftrightarrow> sid \<in> held_sessions s)
     \<and> (l_open (sockets s ! lid) \<longrightarrow> map_of (listeners s) p = Some lid))"

definition live_registered :: "Server \<Rightarrow> bool" where
  "live_registered s \<longleftrightarrow> (\<forall>sid < length (sessions s). \<not> IsClosed (sessions s ! sid) \<longrightarrow>
     sid \<in> held_sessions s \<and> map_of (clients s) (ID (sessions s ! sid)) = Some sid)"

definition orderly_inv :: "Server \<Rightarrow> bool" where
  "orderly_inv s \<longleftrightarrow> server_inv s \<and> ports_disjoint (config s) \<and> one_each s \<and> own_ports s
     \<and> starting_held s \<and> serving_held s \<and> live_registered s"

lemmas orderly_defs = one_each_def own_ports_def starting_held_def serving_held_def
  live_registered_def

subsection \<open>Preservation\<close>

lemma active_below:
  assumes "server_inv s" and "sid \<in> active s"
  shows "sid < length (sessions s)"
proof -
  consider "sid \<in> held_sessions s" | p where "(p, sid) \<in> set (starting s)"
    | p lid where "(p, sid, lid) \<in> set (serving s)"
    using assms(2) by (auto simp: active_def)
  then show ?thesis
  proof cases
    case 1 then show ?thesis using held_below [OF assms(1)] by simp
  next
    case 2 then show ?thesis using assms(1)
      by (auto simp: server_inv_def goroutines_ok_def list_all_iff ball_Un)
  next
    case 3 then show ?thesis using assms(1) by (auto simp: server_inv_def serving_ok_def)
  qed
qed

text \<open>Steps that change no map, no goroutine list and no socket, and open no session.\<close>

lemma orderly_frame:
  assumes "orderly_inv s" and "server_inv t"
    and "config t = config s" "clients t = clients s" "listeners t = listeners s"
    and "sockets t = sockets s" "setups t = setups s" "starting t = starting s"
    and "serving t = serving s" "monitors t = monitors s"
    and "length (sessions t) = length (sessions s)"
    and "\<And>i. ID (sessions t ! i) = ID (sessions s ! i)"
    and "\<And>i. ActivePorts (sessions t ! i) = ActivePorts (sessions s ! i)"
    and "\<And>i. i < length (sessions s) \<Longrightarrow> IsClosed (sessions s ! i) \<Longrightarrow> IsClosed (sessions t ! i)"
  shows "orderly_inv t"
proof -
  have h: "held_sessions t = held_sessions s" "active t = active s"
    using assms by (simp_all add: held_sessions_def active_def)
  note i = assms(1) [unfolded orderly_inv_def]
  have "one_each t" using i by (simp add: one_each_def h assms(12))
  moreover have "own_ports t" using i by (simp add: own_ports_def assms(3,7,8,11,12,13))
  moreover have "starting_held t" using i by (simp add: starting_held_def h assms(8))
  moreover have "serving_held t" using i by (simp add: serving_held_def h assms(5,6,9))
  moreover have "live_registered t"
    using i assms(14) by (auto simp: live_registered_def h assms(4,11,12))
  ultimately show ?thesis using assms(2,3) i by (simp add: orderly_inv_def)
qed

lemma orderly_register:
  assumes inv: "orderly_inv s" and tinv: "server_inv t"
    and t: "t = (register_client i ts now s)\<lparr>handshaking := hs\<rparr>"
    and fresh: "\<And>sid. sid \<in> active s \<Longrightarrow> ID (sessions s ! sid) \<noteq> i"
  shows "orderly_inv t"
proof -
  let ?n = "length (sessions s)"
  have sinv: "server_inv s" using inv by (simp add: orderly_inv_def)
  have "map_of (clients s) i = None"
  proof (cases "map_of (clients s) i")
    case (Some old)
    then have "old \<in> held_sessions s" "ID (sessions s ! old) = i"
      using sinv by (auto simp: server_inv_def clients_ok_def held_sessions_def)
    with fresh [of old] show ?thesis by (auto simp: active_def)
  qed simp
  then have se: "sessions t = sessions s @ [fresh_session i now]"
    by (simp add: t register_sessions)
  have f: "config t = config s" "sockets t = sockets s" "listeners t = listeners s"
      "starting t = starting s" "serving t = serving s"
      "clients t = AList.update i ?n (clients s)"
      "setups t = setups s @ [(?n, setup_ports (config s) i)]"
    by (simp_all add: t)
  have h: "held_sessions t = insert ?n (held_sessions s)" "active t = insert ?n (active s)"
    by (auto simp: t held_sessions_def active_def)
  have below: "\<And>sid. sid \<in> active s \<Longrightarrow> sid < ?n" using active_below [OF sinv] .
  have held: "\<And>sid. sid \<in> held_sessions s \<Longrightarrow> sid \<in> active s" by (simp add: active_def)
  have old: "sessions t ! sid = sessions s ! sid" if "sid \<in> active s" for sid
    using below [OF that] by (simp add: se nth_append)
  have new: "sessions t ! ?n = fresh_session i now" by (simp add: se)
  have "one_each t"
    using inv fresh by (auto simp: orderly_inv_def one_each_def h old new fresh_session_def)
  moreover have "own_ports t" unfolding own_ports_def
  proof (intro conjI allI impI ballI)
    fix sid assume "sid < length (sessions t)"
    then show "set (ActivePorts (sessions t ! sid))
        \<subseteq> set (setup_ports (config t) (ID (sessions t ! sid)))"
      using inv by (auto simp: orderly_inv_def own_ports_def se nth_append f fresh_session_def less_Suc_eq)
  next
    fix x assume "x \<in> set (setups t)"
    then consider "x \<in> set (setups s)" | "x = (?n, setup_ports (config s) i)" by (auto simp: f)
    then show "case x of (sid, ps) \<Rightarrow> set ps \<subseteq> set (setup_ports (config t) (ID (sessions t ! sid)))"
    proof cases
      case 1
      moreover have "fst x \<in> active s" using 1 by (auto simp: active_def held_sessions_def)
      ultimately show ?thesis using inv by (fastforce simp: orderly_inv_def own_ports_def old f)
    qed (simp add: new fresh_session_def f)
  next
    fix x assume x: "x \<in> set (starting t)"
    then have "snd x \<in> active s" by (simp add: active_def f) (metis prod.collapse)
    with x show "case x of (p, sid) \<Rightarrow> p \<in> set (setup_ports (config t) (ID (sessions t ! sid)))"
      using inv by (auto simp: orderly_inv_def own_ports_def old f)
  qed
  moreover have "starting_held t"
    using inv by (auto simp: orderly_inv_def starting_held_def h f)
  moreover have "serving_held t"
    unfolding serving_held_def h
  proof (clarify)
    fix p sid lid assume "(p, sid, lid) \<in> set (serving t)"
    then have s: "(p, sid, lid) \<in> set (serving s)" by (simp add: f)
    then have "sid \<in> active s" by (force simp: active_def)
    with below have "sid \<noteq> ?n" by auto
    with s inv show "l_open (sockets t ! lid) = (sid \<in> insert ?n (held_sessions s))
        \<and> (l_open (sockets t ! lid) \<longrightarrow> map_of (listeners t) p = Some lid)"
      by (auto simp: orderly_inv_def serving_held_def f)
  qed
  moreover have "live_registered t"
    unfolding live_registered_def h
  proof (intro allI impI)
    fix sid assume "sid < length (sessions t)" and o: "\<not> IsClosed (sessions t ! sid)"
    then consider "sid < ?n" | "sid = ?n" by (auto simp: se less_Suc_eq)
    then show "sid \<in> insert ?n (held_sessions s)
        \<and> map_of (clients t) (ID (sessions t ! sid)) = Some sid"
    proof cases
      case 1
      then have "sid \<in> held_sessions s" "map_of (clients s) (ID (sessions s ! sid)) = Some sid"
        using inv o by (auto simp: orderly_inv_def live_registered_def se nth_append)
      moreover from this fresh held have "ID (sessions s ! sid) \<noteq> i" by blast
      ultimately show ?thesis using 1 by (simp add: f se nth_append)
    next
      case 2
      then show ?thesis by (simp add: new f fresh_session_def)
    qed
  qed
  ultimately show ?thesis using inv tinv by (simp add: orderly_inv_def f)
qed

lemma orderly_setup_next:
  assumes inv: "orderly_inv s" and tinv: "server_inv t"
    and e: "setups s = xs @ (sid, port # ports) # ys" and u: "setup_port probe sid port s = Some u"
    and t: "t = u\<lparr>setups := xs @ (sid, ports) # ys\<rparr>"
  shows "orderly_inv t"
proof -
  have p: "port \<in> set (setup_ports (config s) (ID (sessions s ! sid)))"
    using inv e by (auto simp: orderly_inv_def own_ports_def)
  then have "port \<noteq> 0" using disjoint_ports inv by (auto simp: orderly_inv_def)
  then have f: "t = s\<lparr>starting := starting s @ [(port, sid)], setups := xs @ (sid, ports) # ys\<rparr>"
    using u t by (simp add: setup_port_def)
  have h: "held_sessions t = held_sessions s" "active t = active s"
    using e by (auto simp: f held_sessions_def active_def)
  have "own_ports t" using inv e p by (auto simp: orderly_inv_def own_ports_def f)
  moreover have "starting_held t"
    using inv e by (auto simp: orderly_inv_def starting_held_def h) (auto simp: f held_sessions_def)
  ultimately show ?thesis using inv tinv
    by (simp add: orderly_inv_def one_each_def serving_held_def live_registered_def h)
      (simp add: f)
qed

lemma orderly_setup_done:
  assumes inv: "orderly_inv s" and tinv: "server_inv t" and e: "setups s = xs @ (sid, []) # ys"
    and t: "t = s\<lparr>setups := xs @ ys, monitors := monitors s @ [sid]\<rparr>"
  shows "orderly_inv t"
proof -
  have h: "held_sessions t = held_sessions s" "active t = active s"
    using e by (auto simp: t held_sessions_def active_def)
  have "own_ports t" using inv e by (auto simp: orderly_inv_def own_ports_def t)
  then show ?thesis using inv tinv
    by (simp add: orderly_inv_def one_each_def serving_held_def starting_held_def live_registered_def h)
      (simp add: t)
qed

lemma orderly_start:
  assumes inv: "orderly_inv s" and tinv: "server_inv t" and e: "starting s = xs @ (port, sid) # ys"
    and t: "t = (startProxyListener bound port sid s)\<lparr>starting := xs @ ys\<rparr>"
  shows "orderly_inv t"
proof -
  have sid: "sid \<in> held_sessions s" using inv e by (auto simp: orderly_inv_def starting_held_def)
  have below: "sid < length (sessions s)"
    using inv sid held_below by (auto simp: orderly_inv_def)
  show ?thesis
  proof (cases "map_of (listeners s) port = None \<and> bound")
    case False
    then have f: "t = s\<lparr>starting := xs @ ys\<rparr>"
      using t by (auto simp: startProxyListener_def split: option.split)
    have h: "held_sessions t = held_sessions s" "active t \<subseteq> active s"
      using e by (auto simp: f held_sessions_def active_def)
    have "one_each t" using inv h(2) by (auto simp: orderly_inv_def one_each_def f)
    then show ?thesis using inv tinv e
      by (simp add: orderly_inv_def own_ports_def serving_held_def starting_held_def
          live_registered_def h) (simp add: f)
  next
    case True
    let ?n = "length (sockets s)" and ?c = "sessions s ! sid"
    have f: "config t = config s" "clients t = clients s" "setups t = setups s"
        "monitors t = monitors s" "starting t = xs @ ys"
        "sockets t = sockets s @ [\<lparr>l_port = port, l_open = True\<rparr>]"
        "listeners t = AList.update port ?n (listeners s)"
        "serving t = serving s @ [(port, sid, ?n)]"
        "sessions t = (sessions s)[sid := ?c\<lparr>ActivePorts := ActivePorts ?c @ [port]\<rparr>]"
      using True t by (auto simp: startProxyListener_def Let_def)
    have h: "held_sessions t = held_sessions s" by (simp add: held_sessions_def f)
    have a: "active t = active s"
      using e sid by (auto simp: active_def h f)
    have "one_each t" using inv by (simp add: orderly_inv_def one_each_def a f)
    moreover have "own_ports t"
      using inv e below by (fastforce simp: orderly_inv_def own_ports_def f nth_list_update)
    moreover have "starting_held t" using inv e by (auto simp: orderly_inv_def starting_held_def h f)
    moreover have "serving_held t" unfolding serving_held_def h
    proof clarify
      fix p sid' lid assume "(p, sid', lid) \<in> set (serving t)"
      then consider "(p, sid', lid) \<in> set (serving s)" | "p = port" "sid' = sid" "lid = ?n"
        by (auto simp: f)
      then show "(l_open (sockets t ! lid) \<longleftrightarrow> sid' \<in> held_sessions s)
          \<and> (l_open (sockets t ! lid) \<longrightarrow> map_of (listeners t) p = Some lid)"
      proof cases
        case 1
        moreover from 1 have "lid < ?n"
          using inv by (auto simp: orderly_inv_def server_inv_def serving_ok_def)
        ultimately show ?thesis using inv True
          by (auto simp: orderly_inv_def serving_held_def f nth_append)
      qed (simp add: f sid)
    qed
    moreover have "live_registered t"
      using inv by (auto simp: orderly_inv_def live_registered_def h f)
    ultimately show ?thesis using inv tinv by (simp add: orderly_inv_def f)
  qed
qed

text \<open>An accept loop that ends finds its own entry of the map gone, and no other listener on its port.\<close>

lemma orderly_accept_ends:
  assumes inv: "orderly_inv s" and tinv: "server_inv t"
    and e: "serving s = xs @ (port, sid, lid) # ys" and c: "\<not> l_open (sockets s ! lid)"
    and t: "t = (stopProxyListener port lid s)\<lparr>serving := xs @ ys\<rparr>"
  shows "orderly_inv t"
proof -
  have f: "config t = config s" "clients t = clients s" "setups t = setups s"
      "monitors t = monitors s" "starting t = starting s" "sessions t = sessions s"
      "sockets t = (sockets s)[lid := (sockets s ! lid)\<lparr>l_open := False\<rparr>]"
      "listeners t = AList.delete port (listeners s)" "serving t = xs @ ys"
    by (simp_all add: t)
  have h: "held_sessions t = held_sessions s" by (simp add: held_sessions_def f)
  have a: "active t \<subseteq> active s" using e by (auto simp: active_def h f)
  have sv: "\<And>p i l. (p, i, l) \<in> set (serving s) \<Longrightarrow>
      l < length (sockets s) \<and> i \<in> active s \<and> i < length (sessions s)
      \<and> p \<in> set (setup_ports (config s) (ID (sessions s ! i)))"
  proof -
    fix p i l assume i: "(p, i, l) \<in> set (serving s)"
    then have "l < length (sockets s)" "i < length (sessions s)" "p \<in> set (ActivePorts (sessions s ! i))"
      using inv by (auto simp: orderly_inv_def server_inv_def serving_ok_def)
    moreover from i have "i \<in> active s" by (force simp: active_def)
    ultimately show "l < length (sockets s) \<and> i \<in> active s \<and> i < length (sessions s)
      \<and> p \<in> set (setup_ports (config s) (ID (sessions s ! i)))"
      using inv by (auto simp: orderly_inv_def own_ports_def)
  qed
  have lid_sid: "(port, sid, lid) \<in> set (serving s)" by (simp add: e)
  have gone: "sid \<notin> held_sessions s"
    using inv lid_sid c by (auto simp: orderly_inv_def serving_held_def)
  have "serving_held t" unfolding serving_held_def h
  proof clarify
    fix p i l assume "(p, i, l) \<in> set (serving t)"
    then have s: "(p, i, l) \<in> set (serving s)" by (auto simp: f e)
    have o: "l_open (sockets t ! l) \<longleftrightarrow> l_open (sockets s ! l)"
      using sv [OF s] c by (auto simp: f)
    have "p \<noteq> port" if "l_open (sockets s ! l)"
    proof
      assume "p = port"
      then have "ID (sessions s ! i) = ID (sessions s ! sid)"
        using sv [OF s] sv [OF lid_sid] disjoint_ports(2) inv by (auto simp: orderly_inv_def)
      then have "i = sid" using inv sv [OF s] sv [OF lid_sid] by (auto simp: orderly_inv_def one_each_def)
      with gone that s inv show False by (auto simp: orderly_inv_def serving_held_def)
    qed
    with o s inv show "(l_open (sockets t ! l) \<longleftrightarrow> i \<in> held_sessions s)
        \<and> (l_open (sockets t ! l) \<longrightarrow> map_of (listeners t) p = Some l)"
      by (auto simp: orderly_inv_def serving_held_def f)
  qed
  moreover have "one_each t" using inv a by (auto simp: orderly_inv_def one_each_def f)
  ultimately show ?thesis using inv tinv
    by (simp add: orderly_inv_def own_ports_def starting_held_def live_registered_def h f)
qed

text \<open>
  The monitor of a session closes the listeners of that session and of no other, and deletes its
  entry of the client map and no other.
\<close>

lemma orderly_monitor:
  assumes inv: "orderly_inv s" and tinv: "server_inv t"
    and e: "monitors s = xs @ sid # ys" and c: "IsClosed (sessions s ! sid)"
    and t: "t = (monitorSession ts sid s)\<lparr>monitors := xs @ ys\<rparr>"
    and up: "sid \<notin> snd ` set (starting s)"
  shows "orderly_inv t"
proof -
  let ?ps = "ActivePorts (sessions s ! sid)"
  have sinv: "server_inv s" using inv by (simp add: orderly_inv_def)
  have f: "config t = config s" "setups t = setups s" "monitors t = xs @ ys"
      "starting t = starting s" "sessions t = sessions s" "serving t = serving s"
      "clients t = AList.delete (ID (sessions s ! sid)) (clients s)"
      "\<And>q. map_of (listeners t) q = (if q \<in> set ?ps then None else map_of (listeners s) q)"
      "\<And>l. l < length (sockets s) \<Longrightarrow> sockets t ! l
         = (if mapped_to s ?ps l then (sockets s ! l)\<lparr>l_open := False\<rparr> else sockets s ! l)"
    by (simp_all add: t)
  have "distinct (monitors s @ map fst (setups s))"
    using sinv by (simp add: server_inv_def goroutines_ok_def)
  then have h: "held_sessions t = held_sessions s - {sid}"
    using e by (auto simp: held_sessions_def f)
  have a: "active t \<subseteq> active s" by (auto simp: active_def h f)
  have sid: "sid \<in> held_sessions s" "sid \<in> active s"
    using e by (auto simp: active_def held_sessions_def)
  have uniq: "\<And>i. i \<in> active s \<Longrightarrow> ID (sessions s ! i) = ID (sessions s ! sid) \<Longrightarrow> i = sid"
    using inv sid by (auto simp: orderly_inv_def one_each_def)
  have sport: "\<And>p. p \<in> set ?ps \<Longrightarrow> p \<in> set (setup_ports (config s) (ID (sessions s ! sid)))"
    using inv active_below [OF sinv sid(2)] by (auto simp: orderly_inv_def own_ports_def)
  have "serving_held t" unfolding serving_held_def h
  proof clarify
    fix p i l assume "(p, i, l) \<in> set (serving t)"
    then have s: "(p, i, l) \<in> set (serving s)" by (simp add: f)
    then have l: "l < length (sockets s)" "l_port (sockets s ! l) = p"
      and i: "i < length (sessions s)" "p \<in> set (ActivePorts (sessions s ! i))"
      using sinv by (auto simp: server_inv_def serving_ok_def)
    have act: "i \<in> active s" using s by (auto simp: active_def)
    have ip: "p \<in> set (setup_ports (config s) (ID (sessions s ! i)))"
      using inv i by (auto simp: orderly_inv_def own_ports_def)
    have op: "l_open (sockets s ! l) \<longleftrightarrow> i \<in> held_sessions s"
      "l_open (sockets s ! l) \<Longrightarrow> map_of (listeners s) p = Some l"
      using inv s by (auto simp: orderly_inv_def serving_held_def)
    show "(l_open (sockets t ! l) \<longleftrightarrow> i \<in> held_sessions s - {sid})
        \<and> (l_open (sockets t ! l) \<longrightarrow> map_of (listeners t) p = Some l)"
    proof (cases "i = sid")
      case True
      then have "mapped_to s ?ps l"
        using op sid i by (auto simp: mapped_to_def list_ex_iff)
      with True l show ?thesis by (simp add: f)
    next
      case False
      have np: "p \<notin> set ?ps"
      proof
        assume "p \<in> set ?ps"
        from disjoint_ports(2) [OF _ ip sport [OF this]] inv have "ID (sessions s ! i) = ID (sessions s ! sid)"
          by (simp add: orderly_inv_def)
        with uniq [OF act] False show False by simp
      qed
      have "\<not> mapped_to s ?ps l"
      proof
        assume "mapped_to s ?ps l"
        then obtain q where "q \<in> set ?ps" "map_of (listeners s) q = Some l"
          by (auto simp: mapped_to_def list_ex_iff)
        with sinv l np show False by (auto simp: server_inv_def listeners_ok_def)
      qed
      with False l np op show ?thesis by (simp add: f)
    qed
  qed
  moreover have "one_each t" using inv a by (auto simp: orderly_inv_def one_each_def f)
  moreover have "starting_held t"
    using inv up by (force simp: orderly_inv_def starting_held_def h f)
  moreover have "live_registered t" unfolding live_registered_def h
  proof (intro allI impI)
    fix i assume i: "i < length (sessions t)" and o: "\<not> IsClosed (sessions t ! i)"
    then have r: "i \<in> held_sessions s" "map_of (clients s) (ID (sessions s ! i)) = Some i"
      using inv by (auto simp: orderly_inv_def live_registered_def f)
    moreover have "i \<noteq> sid" using o c by (auto simp: f)
    moreover have "i \<in> active s" using r by (simp add: active_def)
    ultimately show "i \<in> held_sessions s - {sid} \<and> map_of (clients t) (ID (sessions t ! i)) = Some i"
      using uniq [of i] by (auto simp: f)
  qed
  ultimately show ?thesis using inv tinv
    by (simp add: orderly_inv_def own_ports_def f)
qed

lemma orderly_inv_step:
  assumes step: "orderly_step s t" and inv: "orderly_inv s"
  shows "orderly_inv t"
proof -
  obtain c where c: "server_step c s t" "c \<noteq> Fault"
    using step by (auto simp: orderly_step_def usual_step_def)
  have tinv: "server_inv t"
    using server_inv_step [of s t] c(1) inv by (auto simp: any_step_def orderly_inv_def)
  from c(1) show ?thesis
  proof (cases rule: server_step.cases)
    case (control xs remote ys strm rnd ts now)
    show ?thesis
    proof (rule handleControlConn_cases [of remote strm rnd ts now s])
      fix n al assume "handleControlConn remote strm rnd ts now s = s\<lparr>authFailures := n, alerts := al\<rparr>"
      with control have "t = s\<lparr>authFailures := n, alerts := al, handshaking := xs @ ys\<rparr>" by simp
      then show ?thesis by (intro orderly_frame [OF inv tinv]) simp_all
    next
      fix i assume r: "handleControlConn remote strm rnd ts now s = register_client i ts now s"
      have "length (sessions s) < length (sessions t)" "ID (last (sessions t)) = i"
        using control r by (simp_all add: register_sessions fresh_session_def split: option.split)
      with step have "\<And>sid. sid \<in> active s \<Longrightarrow> ID (sessions s ! sid) \<noteq> i"
        by (auto simp: orderly_step_def)
      from orderly_register [OF inv tinv _ this] control r show ?thesis by auto
    qed
  next
    case (setup_next xs sid port ports ys probe u)
    then show ?thesis using orderly_setup_next [OF inv tinv] by blast
  next
    case (setup_done xs sid ys)
    then show ?thesis using orderly_setup_done [OF inv tinv] by blast
  next
    case (start xs port sid ys bound)
    then show ?thesis using orderly_start [OF inv tinv] by blast
  next
    case (accept_ends xs port sid lid ys)
    then show ?thesis using orderly_accept_ends [OF inv tinv] by blast
  next
    case (monitor xs sid ys ts)
    have "distinct (monitors s)" using inv by (simp add: orderly_inv_def server_inv_def goroutines_ok_def)
    then have "sid \<in> set (monitors s) - set (monitors t)" using monitor by auto
    then have "sid \<notin> snd ` set (starting s)" using step unfolding orderly_step_def by blast
    with monitor show ?thesis using orderly_monitor [OF inv tinv] by blast
  qed (rule orderly_frame [OF inv tinv]; use c(2) in \<open>auto simp: proxy_enter_def proxy_leave_def
      proxy_copied_rx_def proxy_copied_tx_def upd_session_def close_session_def nth_list_update\<close>)+
qed

interpretation orderly: step_invariant orderly_step orderly_inv
  by unfold_locales (rule orderly_inv_step)

lemma orderly_init: "ports_disjoint cfg \<Longrightarrow> orderly_inv (NewServer cfg)"
  by (simp add: orderly_inv_def server_inv_init)
    (simp add: orderly_defs NewServer_def active_def held_sessions_def)

subsection \<open>Orderly schedules\<close>

definition active_list :: "Server \<Rightarrow> nat list" where
  "active_list s = monitors s @ map fst (setups s) @ map snd (starting s)
     @ map (\<lambda>(p, sid, lid). sid) (serving s)"

lemma active_list: "set (active_list s) = active s"
proof -
  have "snd ` set ps = {sid. \<exists>p. (p, sid) \<in> set ps}" for ps :: "(int \<times> nat) list" by force
  moreover have "(\<lambda>(p, sid, lid). sid) ` set qs = {sid. \<exists>p lid. (p, sid, lid) \<in> set qs}"
    for qs :: "(int \<times> nat \<times> nat) list" by force
  ultimately show ?thesis
    by (simp add: active_list_def active_def held_sessions_def Un_assoc)
qed

definition orderly_check :: "Server \<Rightarrow> Server \<Rightarrow> bool" where
  "orderly_check s t \<longleftrightarrow>
     (if length (sessions s) < length (sessions t)
      then list_all (\<lambda>sid. ID (sessions s ! sid) \<noteq> ID (last (sessions t))) (active_list s) else True)
     \<and> list_all (\<lambda>sid. sid \<in> set (monitors t) \<or> sid \<notin> set (map snd (starting s))) (monitors s)"

fun orderly_execute_all :: "command list \<Rightarrow> Server \<Rightarrow> Server option" where
  "orderly_execute_all [] s = Some s"
| "orderly_execute_all (c # cs) s =
     (case execute c s of
        None \<Rightarrow> None
      | Some t \<Rightarrow> if orderly_check s t then orderly_execute_all cs t else None)"

lemma orderly_execute_steps:
  "orderly_execute_all cs s = Some t \<Longrightarrow> orderly_step\<^sup>*\<^sup>* s t"
proof (induction cs arbitrary: s)
  case (Cons c cs)
  then obtain u where u: "execute c s = Some u" "orderly_check s u" "orderly_execute_all cs u = Some t"
    by (auto split: option.splits if_splits)
  have "usual_step s u" using execute_step [OF u(1)] by (auto simp: usual_step_def)
  with u(2) have "orderly_step s u"
    unfolding orderly_step_def orderly_check_def list_all_iff active_list
    by (auto split: if_splits)
  then show ?case by (rule converse_rtranclp_into_rtranclp [OF _ Cons.IH [OF u(3)]])
qed simp

lemma orderly_listening:
  assumes inv: "orderly_inv s" and p: "listening s p"
  shows "\<exists>sid lid. (p, sid, lid) \<in> set (serving s) \<and> sid \<in> held_sessions s
    \<and> map_of (listeners s) p = Some lid \<and> p \<in> set (setup_ports (config s) (ID (sessions s ! sid)))"
proof -
  have sinv: "server_inv s" using inv by (simp add: orderly_inv_def)
  obtain lid where lid: "lid < length (sockets s)" "l_port (sockets s ! lid) = p"
      "l_open (sockets s ! lid)"
    using p by (auto simp: listening_iff)
  then obtain sid where "(p, sid, lid) \<in> set (serving s)"
    using sinv by (auto simp: server_inv_def sockets_ok_def)
  with lid inv sinv show ?thesis
    by (fastforce simp: orderly_inv_def serving_held_def server_inv_def serving_ok_def own_ports_def)
qed

subsection \<open>Properties\<close>



end
