(* ===== verification/Dashboard_Pages.thy ===== *)
theory Dashboard_Pages
  imports Prelude
begin

text \<open>
  The pages of the dashboard as the server writes them: the one of \<open>Server\<close> (\<^verbatim>\<open>pkg/server/server.go\<close>), with the
  token spliced into its script, and the one of \<open>DashboardHandler\<close> (\<^verbatim>\<open>pkg/server/dashboard.go\<close>), which
  is the same for everybody. A page is the sequence of its bytes; \<open>text_lines\<close> puts a line feed between
  the lines.
\<close>

fun text_lines :: "string list \<Rightarrow> string" where
  "text_lines [] = []"
| "text_lines [l] = l"
| "text_lines (l # m # ls) = l @ CHR 0x0A # text_lines (m # ls)"

subsection \<open>The page of the server\<close>

definition page_head :: string where
  "page_head = text_lines
   [''<!DOCTYPE html>'',
    ''<html>'',
    ''<head><title>Go Reverse Tunnel Dashboard</title>'',
    ''<style>'',
    ''body{font-family:monospace;background:#121212;color:#e0e0e0;padding:20px;}'',
    ''h1{color:#4caf50;} table{width:100%;border-collapse:collapse;margin-top:20px;}'',
    ''th,td{border:1px solid #333;padding:10px;text-align:left;}'',
    ''th{background:#1e1e1e;color:#81c784;}'',
    ''</style></head>'',
    ''<body>'',
    ''<h1>Go Reverse Tunnel Control Panel</h1>'',
    ''<p>Status: <span style=\"color:#4caf50;\">ONLINE</span></p>'',
    ''<div id=\"data\">Loading metrics...</div>'',
    ''<script>'',
    ''function loadData(){'',
    ''  fetch('/api/status?token='']"

definition page_tail :: string where
  "page_tail = text_lines
   [[CHR 0x27] @ '')'',
    ''    .then(r=>r.json())'',
    ''    .then(d=>{'',
    ''      document.getElementById('data').innerHTML = '<pre>'+JSON.stringify(d,null,2)+'</pre>';'',
    ''    });'',
    ''}'',
    ''loadData();'',
    ''setInterval(loadData, 3000);'',
    ''</script>'',
    ''</body></html>'']"

definition dashboard_html :: "string \<Rightarrow> string" where
  "dashboard_html token = page_head @ token @ page_tail"

subsection \<open>The page of the handler\<close>

definition handler_markup :: string where
  "handler_markup = text_lines
   [''<!DOCTYPE html>'',
    ''<html lang=\"en\">'',
    ''<head>'',
    ''    <meta charset=\"UTF-8\">'',
    ''    <meta name=\"viewport\" content=\"width=device-width, initial-scale=1.0\">'',
    ''    <title>Go Reverse Tunnel - Dashboard</title>'',
    ''    <style>'',
    ''        :root {'',
    ''            background-color: #0f172a;'',
    ''            color: #f8fafc;'',
    ''            font-family: ui-monospace, SFMono-Regular, Menlo, Monaco, Consolas, monospace;'',
    ''        }'',
    ''        body {'',
    ''            margin: 0;'',
    ''            padding: 24px;'',
    ''            max-width: 1200px;'',
    ''            margin-left: auto;'',
    ''            margin-right: auto;'',
    ''        }'',
    ''        h1 {'',
    ''            color: #38bdf8;'',
    ''            font-size: 1.5rem;'',
    ''            border-bottom: 2px solid #1e293b;'',
    ''            padding-bottom: 12px;'',
    ''            margin-bottom: 24px;'',
    ''        }'',
    ''        .grid {'',
    ''            display: grid;'',
    ''            grid-template-columns: repeat(auto-fit, minmax(280px, 1fr));'',
    ''            gap: 16px;'',
    ''            margin-bottom: 24px;'',
    ''        }'',
    ''        .card {'',
    ''            background-color: #1e293b;'',
    ''            border: 1px solid #334155;'',
    ''            border-radius: 8px;'',
    ''            padding: 20px;'',
    ''        }'',
    ''        .card h3 {'',
    ''            margin: 0 0 10px 0;'',
    ''            font-size: 0.875rem;'',
    ''            color: #94a3b8;'',
    ''            text-transform: uppercase;'',
    ''            letter-spacing: 0.05em;'',
    ''        }'',
    ''        .card .value {'',
    ''            font-size: 1.75rem;'',
    ''            font-weight: bold;'',
    ''            color: #34d399;'',
    ''        }'',
    ''        table {'',
    ''            width: 100%;'',
    ''            border-collapse: collapse;'',
    ''            background-color: #1e293b;'',
    ''            border-radius: 8px;'',
    ''            overflow: hidden;'',
    ''            border: 1px solid #334155;'',
    ''        }'',
    ''        th, td {'',
    ''            padding: 12px 16px;'',
    ''            text-align: left;'',
    ''            border-bottom: 1px solid #334155;'',
    ''            font-size: 0.9rem;'',
    ''        }'',
    ''        th {'',
    ''            background-color: #0f172a;'',
    ''            color: #38bdf8;'',
    ''            font-weight: 600;'',
    ''        }'',
    ''        tr:last-child td {'',
    ''            border-bottom: none;'',
    ''        }'',
    ''        .status-badge {'',
    ''            display: inline-block;'',
    ''            padding: 4px 8px;'',
    ''            border-radius: 4px;'',
    ''            background-color: #065f46;'',
    ''            color: #6ee7b7;'',
    ''            font-size: 0.75rem;'',
    ''            font-weight: bold;'',
    ''        }'',
    ''    </style>'',
    ''</head>'',
    ''<body>'',
    ''    <h1>'' @ [CHR 0xF0, CHR 0x9F, CHR 0x9A, CHR 0x80] @ '' Go Reverse Tunnel Control Center</h1>'',
    ''    '',
    ''    <div class=\"grid\">'',
    ''        <div class=\"card\">'',
    ''            <h3>Server Status</h3>'',
    ''            <div class=\"value\"><span class=\"status-badge\">ONLINE</span></div>'',
    ''        </div>'',
    ''        <div class=\"card\">'',
    ''            <h3>Active Clients</h3>'',
    ''            <div class=\"value\" id=\"stat-clients\">-</div>'',
    ''        </div>'',
    ''        <div class=\"card\">'',
    ''            <h3>Active Listeners</h3>'',
    ''            <div class=\"value\" id=\"stat-listeners\">-</div>'',
    ''        </div>'',
    ''        <div class=\"card\">'',
    ''            <h3>Total Connections</h3>'',
    ''            <div class=\"value\" id=\"stat-conns\">-</div>'',
    ''        </div>'',
    ''    </div>'',
    [],
    ''    <div class=\"card\" style=\"padding: 0; overflow: hidden;\">'',
    ''        <div style=\"padding: 16px 20px; border-bottom: 1px solid #334155; font-weight: bold; background-color: #1e293b;\">Connected Clients Registry</div>'',
    ''        <table>'',
    ''            <thead>'',
    ''                <tr>'',
    ''                    <th>Client ID</th>'',
    ''                    <th>Connected At</th>'',
    ''                    <th>Active Ports</th>'',
    ''                    <th>Active Streams</th>'',
    ''                    <th>Bytes Transferred (TX / RX)</th>'',
    ''                </tr>'',
    ''            </thead>'',
    ''            <tbody id=\"clients-table-body\">'',
    ''                <tr><td colspan=\"5\" style=\"text-align: center; color: #94a3b8;\">Loading client sessions...</td></tr>'',
    ''            </tbody>'',
    ''        </table>'',
    ''    </div>'',
    []]"

definition handler_script :: string where
  "handler_script = text_lines
   [''    <script>'',
    ''        const token = new URLSearchParams(window.location.search).get('token') || '' @ [CHR 0x27, CHR 0x27] @ '';'',
    [],
    ''        async function fetchData() {'',
    ''            try {'',
    ''                const statusRes = await fetch('/api/status?token=' + token);'',
    ''                if (statusRes.ok) {'',
    ''                    const statusData = await statusRes.json();'',
    ''                    document.getElementById('stat-clients').innerText = statusData.active_clients;'',
    ''                    document.getElementById('stat-listeners').innerText = statusData.active_listeners;'',
    ''                    document.getElementById('stat-conns').innerText = statusData.total_connections;'',
    ''                }'',
    [],
    ''                const clientsRes = await fetch('/api/clients?token=' + token);'',
    ''                if (clientsRes.ok) {'',
    ''                    const clients = await clientsRes.json();'',
    ''                    const tbody = document.getElementById('clients-table-body');'',
    ''                    if (clients.length === 0) {'',
    ''                        tbody.innerHTML = '<tr><td colspan=\"5\" style=\"text-align: center; color: #94a3b8;\">No active client sessions connected.</td></tr>';'',
    ''                        return;'',
    ''                    }'',
    [],
    ''                    tbody.innerHTML = clients.map(c => `'',
    ''                        <tr>'',
    ''                            <td><strong>${c.id}</strong></td>'',
    ''                            <td>${new Date(c.connected_at).toLocaleString()}</td>'',
    ''                            <td>${c.active_ports.join(', ') || 'None'}</td>'',
    ''                            <td>${c.active_streams}</td>'',
    ''                            <td>${formatBytes(c.bytes_tx)} /${formatBytes(c.bytes_rx)}</td>'',
    ''                        </tr>'',
    ''                    `).join('' @ [CHR 0x27, CHR 0x27] @ '');'',
    ''                }'',
    ''            } catch (err) {'',
    ''                console.error('Failed to update dashboard telemetry:', err);'',
    ''            }'',
    ''        }'',
    [],
    ''        function formatBytes(bytes) {'',
    ''            if (bytes === 0) return '0 B';'',
    ''            const k = 1024, sizes = ['B', 'KB', 'MB', 'GB'];'',
    ''            const i = Math.floor(Math.log(bytes) / Math.log(k));'',
    ''            return parseFloat((bytes / Math.pow(k, i)).toFixed(2)) + ' ' + sizes[i];'',
    ''        }'',
    [],
    ''        fetchData();'',
    ''        setInterval(fetchData, 3000);'',
    ''    </script>'',
    ''</body>'',
    ''</html>'']"

definition handler_html :: string where
  "handler_html = handler_markup @ CHR 0x0A # handler_script"

end
