(* ===== verification/Dashboard.thy ===== *)
theory Dashboard
  imports Server_Faults Dashboard_Pages "HOL-Library.Multiset"
begin

text \<open>
  The HTTP side of the server: the token check and the routes (\<^verbatim>\<open>pkg/server/server.go\<close>), the status,
  client and metrics handlers of \<open>Server\<close> and of \<open>DashboardHandler\<close> (\<^verbatim>\<open>pkg/server/dashboard.go\<close>), and
  the alerts of the server over a run. A handler reads the state under the read lock, so it is a
  function of one state; \<open>req_path\<close> is the path after the mux has cleaned it. The pages are those of
  \<open>Dashboard_Pages\<close>; profiling handlers are the library's and stand as \<open>Profile\<close>.
\<close>

record http_request =
  req_path :: string
  query_token :: string
  header_token :: string

datatype http_body =
  Page string | Plain string | JsonBody json | Profile string | ErrorText string

record http_response =
  status :: int
  body :: http_body

subsection \<open>Access\<close>

definition authMiddleware ::
    "ServerConfig \<Rightarrow> (http_request \<Rightarrow> http_response) \<Rightarrow> http_request \<Rightarrow> http_response" where
  "authMiddleware cfg next r =
     (let token = query_token r;
          token = (if token = [] then header_token r else token)
      in if Token cfg \<noteq> [] \<and> token \<noteq> Token cfg
         then \<lparr>status = 401, body = ErrorText ''401 Unauthorized: Invalid or missing token''\<rparr>
         else next r)"

text \<open>\<open>mux\<close>: exact patterns first, then the one pattern that ends in a slash.\<close>

definition mux_route ::
    "(string \<times> (http_request \<Rightarrow> http_response)) list \<Rightarrow> http_request \<Rightarrow> http_response" where
  "mux_route routes r =
     (case map_of routes (req_path r) of
        Some h \<Rightarrow> h r
      | None \<Rightarrow>
        (case find (\<lambda>(pat, h). pat \<noteq> [] \<and> last pat = CHR ''/'' \<and> prefix pat (req_path r)) routes of
           Some (pat, h) \<Rightarrow> h r
         | None \<Rightarrow> \<lparr>status = 404, body = ErrorText ''404 page not found''\<rparr>))"

subsection \<open>The handlers\<close>

definition ok :: "http_body \<Rightarrow> http_response" where
  "ok b = \<lparr>status = 200, body = b\<rparr>"

definition handleDashboardPage :: "Server \<Rightarrow> http_request \<Rightarrow> http_response" where
  "handleDashboardPage s r = ok (Page (dashboard_html (Token (config s))))"

definition client_sessions :: "Server \<Rightarrow> ClientSession list" where
  "client_sessions s = map (\<lambda>(i, sid). sessions s ! sid) (clients s)"

definition totalTx :: "Server \<Rightarrow> 64 word" where
  "totalTx s = fold (\<lambda>c t. t + BytesTx c) (client_sessions s) 0"

definition totalRx :: "Server \<Rightarrow> 64 word" where
  "totalRx s = fold (\<lambda>c t. t + BytesRx c) (client_sessions s) 0"

definition metric :: "string \<Rightarrow> string \<Rightarrow> string \<Rightarrow> int \<Rightarrow> string" where
  "metric name help kind v =
     ''# HELP reverse_tunnel_'' @ name @ '' '' @ help @ [CHR 0x0A]
     @ ''# TYPE reverse_tunnel_'' @ name @ '' '' @ kind @ [CHR 0x0A]
     @ ''reverse_tunnel_'' @ name @ '' '' @ itoa v @ [CHR 0x0A]"

text \<open>The six metrics, separated by empty lines.\<close>

definition handleMetrics :: "Server \<Rightarrow> http_request \<Rightarrow> http_response" where
  "handleMetrics s r = ok (Plain (
     metric ''active_clients'' ''Current active client connections.'' ''gauge'' (int (length (clients s)))
     @ [CHR 0x0A]
     @ metric ''active_listeners'' ''Active listening ports.'' ''gauge'' (int (length (listeners s)))
     @ [CHR 0x0A]
     @ metric ''total_connections'' ''Cumulative total connection attempts.'' ''counter''
         (uint (totalConnections s)) @ [CHR 0x0A]
     @ metric ''auth_failures'' ''Total authentication failures.'' ''counter'' (uint (authFailures s))
     @ [CHR 0x0A]
     @ metric ''bytes_transmitted_total'' ''Total bytes sent.'' ''counter'' (uint (totalTx s)) @ [CHR 0x0A]
     @ metric ''bytes_received_total'' ''Total bytes received.'' ''counter'' (uint (totalRx s))))"

text \<open>The encoder writes the keys of a map in alphabetical order. \<open>now\<close> is the time in seconds.\<close>

definition handleAPIStatus :: "int \<Rightarrow> Server \<Rightarrow> http_request \<Rightarrow> http_response" where
  "handleAPIStatus now s r = ok (JsonBody (JObj
     [(''active_clients'', JInt (int (length (clients s)))),
      (''active_listeners'', JInt (int (length (listeners s)))),
      (''auth_failures'', JInt (uint (authFailures s))),
      (''status'', JStr ''running''),
      (''total_connections'', JInt (uint (totalConnections s))),
      (''uptime_seconds'', JInt now)]))"

definition client_row :: "(int \<Rightarrow> string) \<Rightarrow> ClientSession \<Rightarrow> json" where
  "client_row fmt c = JObj
     [(''active_ports'', JArr (map JInt (ActivePorts c))),
      (''active_streams'', JInt (sint (ActiveStreams c))),
      (''bytes_rx'', JInt (uint (BytesRx c))),
      (''bytes_tx'', JInt (uint (BytesTx c))),
      (''connected_at'', JStr (fmt (ConnectedAt c))),
      (''id'', JStr (ID c))]"

definition handleAPIClients :: "(int \<Rightarrow> string) \<Rightarrow> Server \<Rightarrow> http_request \<Rightarrow> http_response" where
  "handleAPIClients fmt s r =
     ok (JsonBody (JArr (fold (\<lambda>c clientList. clientList @ [client_row fmt c]) (client_sessions s) [])))"

text \<open>\<open>DashboardHandler\<close> has its own page, copies of the other handlers, and the metrics as one object.\<close>

definition dh_handleDashboardPage :: "http_request \<Rightarrow> http_response" where
  "dh_handleDashboardPage r = ok (Page handler_html)"

definition dh_handleAPIStatus :: "int \<Rightarrow> Server \<Rightarrow> http_request \<Rightarrow> http_response" where
  "dh_handleAPIStatus now s r = ok (JsonBody (JObj
     [(''active_clients'', JInt (int (length (clients s)))),
      (''active_listeners'', JInt (int (length (listeners s)))),
      (''auth_failures'', JInt (uint (authFailures s))),
      (''status'', JStr ''running''),
      (''total_connections'', JInt (uint (totalConnections s))),
      (''uptime_seconds'', JInt now)]))"

definition dh_handleAPIClients :: "(int \<Rightarrow> string) \<Rightarrow> Server \<Rightarrow> http_request \<Rightarrow> http_response" where
  "dh_handleAPIClients fmt s r =
     ok (JsonBody (JArr (fold (\<lambda>c clientList. clientList @ [client_row fmt c]) (client_sessions s) [])))"

definition handleMetricsJSON :: "Server \<Rightarrow> http_request \<Rightarrow> http_response" where
  "handleMetricsJSON s r = ok (JsonBody (JObj
     [(''active_clients'', JInt (int (length (clients s)))),
      (''active_listeners'', JInt (int (length (listeners s)))),
      (''auth_failures'', JInt (uint (authFailures s))),
      (''total_bytes_rx'', JInt (uint (totalRx s))),
      (''total_bytes_tx'', JInt (uint (totalTx s))),
      (''total_connections'', JInt (uint (totalConnections s)))]))"

subsection \<open>The two routers\<close>

definition server_routes ::
    "int \<Rightarrow> (int \<Rightarrow> string) \<Rightarrow> Server \<Rightarrow> (string \<times> (http_request \<Rightarrow> http_response)) list" where
  "server_routes now fmt s =
     [(''/dashboard'', handleDashboardPage s),
      (''/metrics'', handleMetrics s),
      (''/api/status'', handleAPIStatus now s),
      (''/api/clients'', handleAPIClients fmt s),
      (''/debug/pprof/'', \<lambda>r. ok (Profile ''index'')),
      (''/debug/pprof/cmdline'', \<lambda>r. ok (Profile ''cmdline'')),
      (''/debug/pprof/profile'', \<lambda>r. ok (Profile ''profile'')),
      (''/debug/pprof/symbol'', \<lambda>r. ok (Profile ''symbol'')),
      (''/debug/pprof/trace'', \<lambda>r. ok (Profile ''trace''))]"

definition handler_routes ::
    "int \<Rightarrow> (int \<Rightarrow> string) \<Rightarrow> Server \<Rightarrow> (string \<times> (http_request \<Rightarrow> http_response)) list" where
  "handler_routes now fmt s =
     [(''/dashboard'', dh_handleDashboardPage),
      (''/api/status'', dh_handleAPIStatus now s),
      (''/api/clients'', dh_handleAPIClients fmt s),
      (''/api/metrics'', handleMetricsJSON s)]"

definition startDashboardServer ::
    "int \<Rightarrow> (int \<Rightarrow> string) \<Rightarrow> Server \<Rightarrow> http_request \<Rightarrow> http_response" where
  "startDashboardServer now fmt s =
     mux_route (map (\<lambda>(pat, h). (pat, authMiddleware (config s) h)) (server_routes now fmt s))"

definition RegisterRoutes ::
    "int \<Rightarrow> (int \<Rightarrow> string) \<Rightarrow> Server \<Rightarrow> http_request \<Rightarrow> http_response" where
  "RegisterRoutes now fmt s =
     mux_route (map (\<lambda>(pat, h). (pat, authMiddleware (config s) h)) (handler_routes now fmt s))"

subsection \<open>Every guarded router refuses\<close>

definition request_token :: "http_request \<Rightarrow> string" where
  "request_token r = (if query_token r = [] then header_token r else query_token r)"

lemma find_mem: "find P xs = Some x \<Longrightarrow> x \<in> set xs"
  by (induction xs) (auto split: if_splits)

lemma guarded_refuses:
  assumes "Token cfg \<noteq> []" and "request_token r \<noteq> Token cfg"
  shows "status (mux_route (map (\<lambda>(pat, h). (pat, authMiddleware cfg h)) routes) r) \<in> {401, 404}
    \<and> (\<exists>t. body (mux_route (map (\<lambda>(pat, h). (pat, authMiddleware cfg h)) routes) r) = ErrorText t)"
proof -
  let ?rs = "map (\<lambda>(pat, h). (pat, authMiddleware cfg h)) routes"
  have guard: "h r = \<lparr>status = 401, body = ErrorText ''401 Unauthorized: Invalid or missing token''\<rparr>"
    if "(pat, h) \<in> set ?rs" for pat h
    using that assms by (auto simp: authMiddleware_def request_token_def Let_def)
  show ?thesis
  proof (cases "map_of ?rs (req_path r)")
    case (Some h)
    with guard [OF map_of_SomeD [OF this]] show ?thesis by (simp add: mux_route_def)
  next
    case None
    show ?thesis
    proof (cases "find (\<lambda>(pat, h). pat \<noteq> [] \<and> last pat = CHR ''/'' \<and> prefix pat (req_path r)) ?rs")
      case (Some ph)
      obtain pat h where ph: "ph = (pat, h)" by (cases ph)
      from Some have "ph \<in> set ?rs" by (rule find_mem)
      with guard [of pat h] None Some ph show ?thesis by (simp add: mux_route_def)
    qed (use None in \<open>simp add: mux_route_def\<close>)
  qed
qed

lemma guarded_passes:
  assumes "Token cfg = [] \<or> request_token r = Token cfg"
  shows "mux_route (map (\<lambda>(pat, h). (pat, authMiddleware cfg h)) routes) r = mux_route routes r"
proof -
  have pass: "authMiddleware cfg h r = h r" for h
    using assms by (auto simp: authMiddleware_def request_token_def Let_def)
  have m: "map_of (map (\<lambda>(pat, h). (pat, authMiddleware cfg h)) routes) p
      = map_option (authMiddleware cfg) (map_of routes p)" for p
    by (induction routes) auto
  have f: "find (\<lambda>(pat, h). P pat) (map (\<lambda>(pat, h). (pat, authMiddleware cfg h)) routes)
      = map_option (\<lambda>(pat, h). (pat, authMiddleware cfg h)) (find (\<lambda>(pat, h). P pat) routes)" for P
    by (induction routes) auto
  show ?thesis
    unfolding mux_route_def m f
    by (auto simp: pass split: option.split prod.split)
qed

subsection \<open>Sums and listings\<close>

lemma fold_rows: "fold (\<lambda>c l. l @ [f c]) cs acc = acc @ map f cs"
  by (induction cs arbitrary: acc) auto

lemma fold_word_sum:
  fixes acc :: "'a::len word"
  shows "fold (\<lambda>c t. t + f c) cs acc = acc + of_nat (sum_list (map (unat \<circ> f) cs))"
  by (induction cs arbitrary: acc) (simp_all add: add.assoc)

lemma length_card_dom: "distinct (map fst m) \<Longrightarrow> length m = card (dom (map_of m))"
  by (metis distinct_card dom_map_of_conv_image_fst length_map list.set_map)

text \<open>The map of clients has one entry per key in every reachable state.\<close>

definition keys_ok :: "Server \<Rightarrow> bool" where
  "keys_ok s \<longleftrightarrow> distinct (map fst (clients s)) \<and> distinct (map fst (listeners s))"

lemma keys_monitor_ports:
  "distinct (map fst (listeners s)) \<Longrightarrow> distinct (map fst (listeners (fold monitor_port ps s)))"
proof (induction ps arbitrary: s)
  case (Cons p ps)
  then have "distinct (map fst (listeners (monitor_port p s)))"
    by (simp add: monitor_port_def close_listener_def split: option.split)
  then show ?case by (simp add: Cons.IH)
qed simp

lemma keys_ok_step:
  assumes "server_step c s t" and "keys_ok s"
  shows "keys_ok t"
  using assms(1)
proof (cases rule: server_step.cases)
  case (control xs remote ys strm rnd ts now)
  show ?thesis
  proof (rule handleControlConn_cases [of remote strm rnd ts now s])
    fix n al assume "handleControlConn remote strm rnd ts now s = s\<lparr>authFailures := n, alerts := al\<rparr>"
    with control assms(2) show ?thesis by (simp add: keys_ok_def)
  next
    fix i assume "handleControlConn remote strm rnd ts now s = register_client i ts now s"
    with control assms(2) show ?thesis by (simp add: keys_ok_def)
  qed
next
  case (setup_next xs sid p ports ys probe u)
  then show ?thesis using assms(2) by (simp add: keys_ok_def setup_port_frame)
next
  case (start xs p sid ys bound)
  then show ?thesis using assms(2)
    by (auto simp: keys_ok_def startProxyListener_def Let_def split: option.split)
next
  case (monitor xs sid ys ts)
  then show ?thesis using assms(2)
    by (simp add: keys_ok_def monitorSession_def Let_def keys_monitor_ports)
qed (use assms(2) in \<open>simp_all add: keys_ok_def proxy_enter_def proxy_leave_def
    proxy_copied_rx_def proxy_copied_tx_def\<close>)

interpretation keys: step_invariant any_step keys_ok
  by unfold_locales (auto simp: any_step_def intro: keys_ok_step)

lemma reachable_keys: "server_reachable cfg s \<Longrightarrow> keys_ok s"
  unfolding server_reachable_def by (erule keys.reachable) (simp add: keys_ok_def NewServer_def)

subsection \<open>Alerts over a run\<close>

text \<open>The event and the client an alert names.\<close>

fun alert_about :: "json \<Rightarrow> (string \<times> string) option" where
  "alert_about (JObj [(_, JObj [(k, JStr v)]), (_, JStr e), _]) = Some (e, v)"
| "alert_about _ = None"

definition alerted :: "string \<Rightarrow> string \<Rightarrow> Server \<Rightarrow> nat" where
  "alerted e i s = length (filter (\<lambda>j. alert_about j = Some (e, i)) (alerts s))"

lemma alerted_send:
  "alerted e i (sendWebhookAlert ts e' [(k, v)] s) =
     alerted e i s + (if WebhookURL (config s) \<noteq> [] \<and> e' = e \<and> v = i then 1 else 0)"
  by (simp add: sendWebhookAlert_def alerted_def)

text \<open>The sessions of an identifier whose monitor has not run.\<close>

definition held_of :: "string \<Rightarrow> Server \<Rightarrow> nat" where
  "held_of i s = length (filter (\<lambda>sid. ID (sessions s ! sid) = i) (monitors s @ map fst (setups s)))"

definition alerts_balanced :: "Server \<Rightarrow> bool" where
  "alerts_balanced s \<longleftrightarrow> (if WebhookURL (config s) = [] then alerts s = []
     else \<forall>i. alerted ''ClientConnected'' i s = alerted ''ClientDisconnected'' i s + held_of i s)"

lemma monitor_ports_alerts [simp]: "alerts (fold monitor_port ps s) = alerts s"
  by (induction ps arbitrary: s) (simp_all add: monitor_port_def close_listener_def split: option.split)

lemma handleControlConn_forms:
  "handleControlConn remote strm rnd ts now s = s
   \<or> handleControlConn remote strm rnd ts now s
       = sendWebhookAlert ts ''AuthFailure'' [(''remote'', remote)] (s\<lparr>authFailures := authFailures s + 1\<rparr>)
   \<or> (\<exists>i. handleControlConn remote strm rnd ts now s = register_client i ts now s)"
  by (auto simp: handleControlConn_def split: option.split prod.split)

lemma alerted_register:
  "alerted e i (register_client j ts now s) =
     alerted e i s + (if WebhookURL (config s) \<noteq> [] \<and> e = ''ClientConnected'' \<and> j = i then 1 else 0)"
proof -
  let ?d = "(case map_of (clients s) j of Some old \<Rightarrow> close_session old s | None \<Rightarrow> s)"
  let ?u = "?d\<lparr>sessions := sessions ?d @ [fresh_session j now],
      clients := AList.update j (length (sessions ?d)) (clients ?d)\<rparr>"
  have "alerts (register_client j ts now s)
      = alerts (sendWebhookAlert ts ''ClientConnected'' [(''client_id'', j)] ?u)"
    by (simp add: register_client_def Let_def fresh_session_def)
  moreover have "alerts ?u = alerts s" "config ?u = config s"
    by (simp_all add: close_session_def split: option.split)
  ultimately show ?thesis
    using alerted_send [of e i ts "''ClientConnected''" "''client_id''" j ?u]
    by (simp add: alerted_def)
qed

lemma alerted_monitor:
  "alerted e i (monitorSession ts sid s) = alerted e i s
     + (if WebhookURL (config s) \<noteq> [] \<and> e = ''ClientDisconnected'' \<and> ID (sessions s ! sid) = i then 1 else 0)"
  using alerted_send [of e i ts "''ClientDisconnected''" "''client_id''" "ID (sessions s ! sid)" s]
  by (auto simp: monitorSession_def Let_def alerted_def)

lemma alerts_quiet:
  assumes "alerts_balanced s" and "config t = config s" and "alerts t = alerts s"
    and "\<And>i. held_of i t = held_of i s"
  shows "alerts_balanced t"
proof -
  have "alerted e i t = alerted e i s" for e i using assms(3) by (simp add: alerted_def)
  then show ?thesis using assms by (simp add: alerts_balanced_def)
qed

lemma held_of_cong:
  assumes "mset (monitors t @ map fst (setups t)) = mset (monitors s @ map fst (setups s))"
    and "\<And>j. ID (sessions t ! j) = ID (sessions s ! j)"
  shows "held_of i t = held_of i s"
proof -
  have "mset (filter (\<lambda>sid. ID (sessions s ! sid) = i) (monitors t @ map fst (setups t)))
      = mset (filter (\<lambda>sid. ID (sessions s ! sid) = i) (monitors s @ map fst (setups s)))"
    using assms(1) by (metis mset_filter)
  from mset_eq_length [OF this] show ?thesis by (simp add: held_of_def assms(2))
qed

lemma alerts_balanced_step:
  assumes "server_step c s t" and bal: "alerts_balanced s" and inv: "server_inv s"
  shows "alerts_balanced t"
  using assms(1)
proof (cases rule: server_step.cases)
  case (control xs remote ys strm rnd ts now)
  let ?h = "handleControlConn remote strm rnd ts now s"
  consider "?h = s" | "?h = sendWebhookAlert ts ''AuthFailure'' [(''remote'', remote)]
      (s\<lparr>authFailures := authFailures s + 1\<rparr>)" | i where "?h = register_client i ts now s"
    using handleControlConn_forms by blast
  then show ?thesis
  proof cases
    case 1
    with control show ?thesis by (intro alerts_quiet [OF bal]) (simp_all add: held_of_def)
  next
    case 2
    have "alerted e i t = alerted e i s" if "e \<noteq> ''AuthFailure''" for e i
      using control 2 that alerted_send [of e i ts "''AuthFailure''" "''remote''" remote
          "s\<lparr>authFailures := authFailures s + 1\<rparr>"]
      by (simp add: alerted_def)
    moreover have "WebhookURL (config s) = [] \<Longrightarrow> alerts t = alerts s"
      using control 2 by (simp add: sendWebhookAlert_def)
    ultimately show ?thesis using bal control 2
      by (simp add: alerts_balanced_def held_of_def)
  next
    case (3 j)
    define L where "L = monitors s @ map fst (setups s)"
    have new: "ID (sessions t ! length (sessions s)) = j"
      using control 3 by (simp add: register_sessions nth_append fresh_session_def split: option.split)
    have lt: "monitors t @ map fst (setups t) = L @ [length (sessions s)]"
      using control 3 by (simp add: L_def)
    have held: "held_of i t = held_of i s + (if j = i then 1 else 0)" for i
    proof -
      have "ID (sessions t ! sid) = ID (sessions s ! sid)" if "sid \<in> set L" for sid
        using that held_below [OF inv, of sid] control 3
        by (auto simp: L_def held_sessions_def register_sessions nth_append split: option.split)
      then have "filter (\<lambda>sid. ID (sessions t ! sid) = i) L = filter (\<lambda>sid. ID (sessions s ! sid) = i) L"
        by (intro filter_cong) auto
      moreover have "held_of i t = length (filter (\<lambda>sid. ID (sessions t ! sid) = i) (L @ [length (sessions s)]))"
        by (simp only: held_of_def lt)
      moreover have "held_of i s = length (filter (\<lambda>sid. ID (sessions s ! sid) = i) L)"
        by (simp only: held_of_def L_def)
      ultimately show ?thesis using new by simp
    qed
    have "alerted e i t = alerted e i (register_client j ts now s)" for e i
      using control 3 by (simp add: alerted_def)
    moreover have "WebhookURL (config s) = [] \<Longrightarrow> alerts t = alerts s"
      using control 3 by (simp add: register_client_def Let_def sendWebhookAlert_def close_session_def
          split: option.split)
    moreover have "config t = config s" using control 3 by simp
    ultimately show ?thesis using bal
      by (auto simp: alerts_balanced_def held alerted_register)
  qed
next
  case (setup_next xs sid p ports ys probe u)
  have "alerts u = alerts s"
    using setup_next by (auto simp: setup_port_def split: if_splits option.splits sum.splits prod.splits)
  with setup_next show ?thesis
    by (intro alerts_quiet [OF bal] held_of_cong) (simp_all add: setup_port_frame)
next
  case (setup_done xs sid ys)
  then show ?thesis by (intro alerts_quiet [OF bal] held_of_cong) simp_all
next
  case (start xs p sid ys bound)
  then show ?thesis
    by (intro alerts_quiet [OF bal] held_of_cong)
      (auto simp: startProxyListener_def Let_def split: option.split)
next
  case (monitor xs sid ys ts)
  have "held_of i s = held_of i t + (if ID (sessions s ! sid) = i then 1 else 0)" for i
    using monitor by (simp add: held_of_def)
  moreover have "alerted e i t = alerted e i (monitorSession ts sid s)" for e i
    using monitor by (simp add: alerted_def)
  moreover have "WebhookURL (config s) = [] \<Longrightarrow> alerts t = alerts s"
    using monitor by (simp add: monitorSession_def Let_def sendWebhookAlert_def)
  moreover have "config t = config s" using monitor by simp
  ultimately show ?thesis using bal
    by (auto simp: alerts_balanced_def alerted_monitor)
qed (intro alerts_quiet [OF bal] held_of_cong;
    simp add: proxy_enter_def proxy_leave_def proxy_copied_rx_def proxy_copied_tx_def upd_session_def
      close_session_def stopProxyListener_def close_listener_def acceptControl_def Let_def
      split: prod.split bool.split)+

lemma alerts_balanced_any:
  "any_step s t \<Longrightarrow> server_inv s \<and> alerts_balanced s \<Longrightarrow> server_inv t \<and> alerts_balanced t"
  using server_inv_step [of s t] alerts_balanced_step [of _ s t] by (auto simp: any_step_def)

interpretation balance: step_invariant any_step "\<lambda>s. server_inv s \<and> alerts_balanced s"
  by unfold_locales (rule alerts_balanced_any)

lemma reachable_balance: "server_reachable cfg s \<Longrightarrow> alerts_balanced s"
proof -
  assume r: "server_reachable cfg s"
  have "server_inv (NewServer cfg) \<and> alerts_balanced (NewServer cfg)"
    using server_inv_init by (simp add: alerts_balanced_def NewServer_def alerted_def held_of_def)
  with r show ?thesis unfolding server_reachable_def by (blast dest: balance.reachable)
qed

subsection \<open>Properties\<close>





text \<open>
  C30. With a webhook, every session is announced once when it is registered and once when its monitor has
  run: in every reachable state and for every identifier, the connections announced are the
  disconnections announced and the sessions that are still held. Without a webhook there are no
  alerts.
\<close>

theorem alerts_match_sessions:
  assumes "server_reachable cfg s"
  shows "if WebhookURL cfg = [] then alerts s = []
     else alerted ''ClientConnected'' i s = alerted ''ClientDisconnected'' i s + held_of i s"
  using reachable_balance [OF assms] reachable_config [OF assms]
  by (auto simp: alerts_balanced_def)

lemma alerts_match_sessions_witness:
  "\<exists>s. execute_all (up_80 @ [DoEnd 0]) (NewServer ((one_client [80])\<lparr>WebhookURL := ''w''\<rparr>)) = Some s
     \<and> alerted ''ClientConnected'' ''a'' s = alerted ''ClientDisconnected'' ''a'' s + 1"
proof -
  let ?cfg = "(one_client [80])\<lparr>WebhookURL := ''w''\<rparr>"
  have "map_option (held_of ''a'') (execute_all (up_80 @ [DoEnd 0]) (NewServer ?cfg)) = Some 1"
    by code_simp
  then obtain s where e: "execute_all (up_80 @ [DoEnd 0]) (NewServer ?cfg) = Some s"
    and "held_of ''a'' s = 1"
    by auto
  with alerts_match_sessions [OF execute_all_from_start [OF e], of "''a''"] show ?thesis by simp
qed

end
