(* ===== verification/Observability.thy ===== *)
theory Observability
  imports Server_Core
begin

text \<open>
  What the program tells the outside besides the dashboard: the webhook payload of
  \<^verbatim>\<open>pkg/notify/notify.go\<close> and the registration of the metrics of \<^verbatim>\<open>pkg/metrics/metrics.go\<close>. The server uses
  neither package; its own alerts are those of \<open>sendWebhookAlert\<close>.
\<close>

datatype EventType = EventClientConnected | EventClientDisconnected | EventAuthFailed

fun event_text :: "EventType \<Rightarrow> string" where
  "event_text EventClientConnected = ''CLIENT_CONNECTED''"
| "event_text EventClientDisconnected = ''CLIENT_DISCONNECTED''"
| "event_text EventAuthFailed = ''AUTH_FAILED''"

text \<open>The body that is posted, or None when there is no URL. Empty identifiers are left out.\<close>

definition SendWebhook ::
    "string \<Rightarrow> EventType \<Rightarrow> string \<Rightarrow> string \<Rightarrow> string \<Rightarrow> string \<Rightarrow> json option" where
  "SendWebhook url event clientID remoteAddr message ts =
     (if url = [] then None
      else Some (JObj (
        [(''event'', JStr (event_text event))]
        @ (if clientID = [] then [] else [(''client_id'', JStr clientID)])
        @ (if remoteAddr = [] then [] else [(''remote_addr'', JStr remoteAddr)])
        @ [(''message'', JStr message), (''timestamp'', JStr ts)])))"

text \<open>
  The registry holds names; \<^verbatim>\<open>MustRegister\<close> panics (None) on a name that is taken. The once-flag runs
  the registrations at the first call only.
\<close>

record registry =
  once_done :: bool
  registered :: "string list"

definition MustRegister :: "string \<Rightarrow> registry \<Rightarrow> registry option" where
  "MustRegister name r =
     (if name \<in> set (registered r) then None else Some (r\<lparr>registered := registered r @ [name]\<rparr>))"

fun register_all :: "string list \<Rightarrow> registry \<Rightarrow> registry option" where
  "register_all [] r = Some r"
| "register_all (n # ns) r =
     (case MustRegister n r of None \<Rightarrow> None | Some r \<Rightarrow> register_all ns r)"

definition metric_names :: "string list" where
  "metric_names =
     [''tunnel_active_clients'', ''tunnel_active_streams'', ''tunnel_bytes_transferred_total'',
      ''tunnel_auth_failures_total'', ''tunnel_rate_limit_triggers_total'',
      ''tunnel_connection_drops_total'']"

definition Register :: "registry \<Rightarrow> registry option" where
  "Register r =
     (if once_done r then Some r else register_all metric_names (r\<lparr>once_done := True\<rparr>))"

lemma register_all_spec:
  "distinct ns \<Longrightarrow> register_all ns r =
     (if set ns \<inter> set (registered r) = {} then Some (r\<lparr>registered := registered r @ ns\<rparr>) else None)"
proof (induction ns arbitrary: r)
  case (Cons n ns)
  show ?case
  proof (cases "n \<in> set (registered r)")
    case False
    with Cons show ?thesis by (auto simp: MustRegister_def)
  qed (simp add: MustRegister_def)
qed simp

lemma metric_names_distinct: "distinct metric_names"
  by (simp add: metric_names_def)

subsection \<open>Properties\<close>

text \<open>
  The registration panics only when somebody else has taken one of the names, and repeating it
  changes nothing.
\<close>

theorem register_is_idempotent:
  "Register r = (if once_done r then Some r
     else if set metric_names \<inter> set (registered r) = {}
     then Some (r\<lparr>once_done := True, registered := registered r @ metric_names\<rparr>) else None)
   \<and> (case Register r of None \<Rightarrow> True | Some r' \<Rightarrow> Register r' = Some r')"
proof -
  have e: "Register r = (if once_done r then Some r
     else if set metric_names \<inter> set (registered r) = {}
     then Some (r\<lparr>once_done := True, registered := registered r @ metric_names\<rparr>) else None)" for r
    by (simp add: Register_def register_all_spec [OF metric_names_distinct])
  show ?thesis unfolding e by (simp split: option.split)
qed

text \<open>
  The names of the package's events are none of those the server posts, so a receiver written for
  the one does not understand the other.
\<close>

theorem event_names_differ:
  "event_text e \<noteq> ''ClientConnected'' \<and> event_text e \<noteq> ''ClientDisconnected''
   \<and> event_text e \<noteq> ''AuthFailure''"
  by (cases e) simp_all

end
