(* ===== verification/Forwarding.thy ===== *)
theory Forwarding
  imports Go_Std Conn Config
begin

text \<open>
  The data path of a forwarded connection. On the server (\<^verbatim>\<open>handleProxyConnection\<close> in
  \<^verbatim>\<open>pkg/server/server.go\<close>) the port is written as a header and the user's bytes are copied behind it.
  On the client (\<^verbatim>\<open>handleIncomingStream\<close> in \<^verbatim>\<open>pkg/client/client.go\<close>) one \<^verbatim>\<open>Read\<close> takes the header and
  the rest is copied to the local target, or sent as datagrams (\<^verbatim>\<open>pkg/udp/udp.go\<close>) when no TCP
  connection to it can be made.
\<close>

subsection \<open>io.Copy\<close>

lemma ev_read_smaller:
  "ev_read k evs = ((bs, False), r) \<Longrightarrow> 0 < k \<Longrightarrow>
     length r + length (stream r) < length evs + length (stream evs)"
  by (cases "(k, evs)" rule: ev_read.cases) (auto split: if_splits)

text \<open>
  \<^verbatim>\<open>io.Copy\<close> with its buffer of 32 KiB: the number of bytes written, the destination, and what is left
  of the source.
\<close>

function io_copy :: "conn \<Rightarrow> rx_event list \<Rightarrow> nat \<times> conn \<times> rx_event list" where
  "io_copy dst evs =
     (case ev_read 32768 evs of
        ((buf, err), r) \<Rightarrow>
          if buf = [] then (if err then (0, dst, r) else io_copy dst r)
          else (case conn_write buf dst of
                  (False, d) \<Rightarrow> (0, d, r)
                | (True, d) \<Rightarrow>
                    if err then (length buf, d, r)
                    else (case io_copy d r of (n, d', r') \<Rightarrow> (length buf + n, d', r'))))"
  by pat_completeness auto
termination
  by (relation "measure (\<lambda>(dst, evs). length evs + length (stream evs))")
    (auto dest!: sym [of _ "ev_read _ _"] ev_read_smaller)

declare io_copy.simps [simp del]

text \<open>What is written is a beginning of the source, and the count is its length.\<close>

lemma io_copy_prefix:
  "io_copy dst evs = (n, d, r) \<Longrightarrow>
     \<exists>w. concat (tx d) = concat (tx dst) @ w \<and> prefix w (stream evs) \<and> n = length w"
proof (induction dst evs arbitrary: n d r rule: io_copy.induct)
  case (1 dst evs)
  obtain buf err r0 where rd: "ev_read 32768 evs = ((buf, err), r0)" by (metis surj_pair)
  have pre: "stream evs = buf @ stream r0"
    using rd by (cases "(32768 :: nat, evs)" rule: ev_read.cases) (auto split: if_splits)
  show ?case
  proof (cases "buf = []")
    case True
    with 1 rd pre show ?thesis
      by (cases err) (auto simp: io_copy.simps [of dst evs])
  next
    case False
    obtain ok d1 where w: "conn_write buf dst = (ok, d1)" by (metis surj_pair)
    consider "\<not> ok" | "ok" "err" | "ok" "\<not> err" by blast
    then show ?thesis
    proof cases
      case 1
      with "1.prems" rd False w show ?thesis
        by (auto simp: io_copy.simps [of dst evs] conn_write_def split: if_splits)
    next
      case 2
      with "1.prems" rd False w pre show ?thesis
        by (auto simp: io_copy.simps [of dst evs] conn_write_def split: if_splits)
    next
      case 3
      obtain n' d' r' where rec: "io_copy d1 r0 = (n', d', r')" by (metis surj_pair)
      have "concat (tx d1) = concat (tx dst) @ buf"
        using w 3 by (auto simp: conn_write_def split: if_splits)
      moreover obtain v where "concat (tx d') = concat (tx d1) @ v" "prefix v (stream r0)" "n' = length v"
        using "1.IH"(2) [OF rd [symmetric] refl False w [symmetric] _ _ rec] 3 by auto
      ultimately show ?thesis using "1.prems" rd False w 3 rec pre
        by (auto simp: io_copy.simps [of dst evs])
    qed
  qed
qed

lemma io_copy_all:
  "clean evs \<Longrightarrow> \<not> closed dst \<Longrightarrow> length evs + length (stream evs) \<le> wleft dst \<Longrightarrow>
     \<exists>d. io_copy dst evs = (length (stream evs), d, []) \<and> concat (tx d) = concat (tx dst) @ stream evs"
proof (induction dst evs rule: io_copy.induct)
  case (1 dst evs)
  show ?case
  proof (cases evs)
    case Nil
    then show ?thesis by (simp add: io_copy.simps)
  next
    case (Cons e es)
    obtain buf err r0 where rd: "ev_read 32768 evs = ((buf, err), r0)" by (metis surj_pair)
    have pre: "stream evs = buf @ stream r0" "\<not> err" "clean r0"
      using rd "1.prems"(1) Cons
      by (cases "(32768 :: nat, evs)" rule: ev_read.cases; auto split: if_splits)+
    have less: "length r0 + length (stream r0) < length evs + length (stream evs)"
      using ev_read_smaller [of 32768 evs buf r0] rd pre(2) by simp
    show ?thesis
    proof (cases "buf = []")
      case True
      with "1.IH"(1) [OF rd [symmetric] refl True pre(2)] "1.prems" pre less rd show ?thesis
        by (simp add: io_copy.simps [of dst evs])
    next
      case False
      let ?d1 = "dst\<lparr>tx := tx dst @ [buf], wleft := wleft dst - 1\<rparr>"
      have w: "conn_write buf dst = (True, ?d1)" using "1.prems" less by simp
      have "length r0 + length (stream r0) \<le> wleft ?d1" using less "1.prems"(3) by simp
      from "1.IH"(2) [OF rd [symmetric] refl False w [symmetric] refl pre(2) pre(3) _ this] "1.prems"(2)
      obtain d where "io_copy ?d1 r0 = (length (stream r0), d, [])"
        "concat (tx d) = concat (tx ?d1) @ stream r0"
        by auto
      with rd False w pre show ?thesis by (simp add: io_copy.simps [of dst evs])
    qed
  qed
qed

subsection \<open>The two ends\<close>

definition portHeader :: "int \<Rightarrow> bytes" where
  "portHeader port = str_bytes (itoa port) @ [10]"

text \<open>The server's end from the user to the stream: None when the header cannot be written.\<close>

definition forward_user :: "int \<Rightarrow> conn \<Rightarrow> rx_event list \<Rightarrow> (nat \<times> conn) option" where
  "forward_user port strm user =
     (case conn_write (portHeader port) strm of
        (False, strm) \<Rightarrow> None
      | (True, strm) \<Rightarrow> (case io_copy strm user of (n, strm, _) \<Rightarrow> Some (n, strm)))"

text \<open>\<open>StartClientForwarding\<close>: every successful \<^verbatim>\<open>Read\<close> with a buffer of 32 KiB is one datagram.\<close>

function udp_datagrams :: "rx_event list \<Rightarrow> bytes list" where
  "udp_datagrams evs =
     (case ev_read 32768 evs of ((buf, err), r) \<Rightarrow> if err then [] else buf # udp_datagrams r)"
  by pat_completeness auto
termination
  by (relation "measure (\<lambda>evs. length evs + length (stream evs))")
    (auto dest!: sym [of _ "ev_read _ _"] ev_read_smaller)

declare udp_datagrams.simps [simp del]

datatype delivery = HeaderFailed | Tcp nat conn | Udp "bytes list"

definition target_addr :: "ClientConfig \<Rightarrow> string" where
  "target_addr cfg = (if LocalTarget cfg = [] then ''127.0.0.1:8080'' else LocalTarget cfg)"

text \<open>
  The client's end from the stream to the target: the port it decodes, the address it dials, and
  what it delivers there. \<open>dial\<close> is the TCP connection to the address, or None.
\<close>

definition handleIncomingStream ::
    "ClientConfig \<Rightarrow> (string \<Rightarrow> conn option) \<Rightarrow> rx_event list \<Rightarrow> int \<times> string \<times> delivery" where
  "handleIncomingStream cfg dial evs =
     (case ev_read 64 evs of
        ((headerBuf, err), r) \<Rightarrow>
          if err then (0, [], HeaderFailed)
          else
            let line = bytes_str (trim_space headerBuf);
                remotePort = fst (atoi line);
                targetAddr = target_addr cfg
            in (case dial targetAddr of
                  None \<Rightarrow> (remotePort, targetAddr, Udp (udp_datagrams r))
                | Some target \<Rightarrow>
                    (case io_copy target r of
                       (n, target, _) \<Rightarrow> (remotePort, targetAddr, Tcp n target))))"

subsection \<open>Trimming and decoding the header\<close>

lemma trim_left_id: "strip_one es s = None \<Longrightarrow> trim_left es s = s"
  by (simp add: trim_left.simps)

definition plain_byte :: "byte \<Rightarrow> bool" where
  "plain_byte b \<longleftrightarrow> 33 \<le> b \<and> b \<le> 126"

lemma strip_one_heads: "b \<notin> set (map hd es) \<Longrightarrow> strip_one es (b # s) = None"
proof (induction es)
  case (Cons e es)
  then show ?case by (cases e) auto
qed simp

lemma plain_not_space:
  assumes "plain_byte b"
  shows "b \<notin> set (map hd space_encodings)" and "b \<notin> set (map hd (map rev space_encodings))"
proof -
  have "set (map hd space_encodings) \<union> set (map hd (map rev space_encodings))
      \<subseteq> {9, 10, 11, 12, 13, 32} \<union> {b. 128 \<le> b}"
    by (simp add: space_encodings_def)
  moreover have "b \<notin> {9, 10, 11, 12, 13, 32} \<union> {b. 128 \<le> b}"
    using assms by (auto simp: plain_byte_def word_le_nat_alt)
  ultimately show "b \<notin> set (map hd space_encodings)"
    and "b \<notin> set (map hd (map rev space_encodings))" by blast+
qed

lemma strip_plain: "plain_byte b \<Longrightarrow> strip_one space_encodings (b # s) = None"
  by (intro strip_one_heads plain_not_space)

lemma strip_plain_rev: "plain_byte b \<Longrightarrow> strip_one (map rev space_encodings) (b # s) = None"
  by (intro strip_one_heads plain_not_space)

lemma trim_space_header:
  assumes "list_all plain_byte s" and "s \<noteq> []"
  shows "trim_space (s @ [10]) = s"
proof -
  obtain b s' where s: "s = b # s'" using assms(2) by (cases s) auto
  have l: "trim_left space_encodings (s @ [10]) = s @ [10]"
    using assms(1) by (intro trim_left_id) (simp add: s strip_plain)
  obtain c t where t: "rev s = c # t" using assms(2) by (cases "rev s") auto
  have "plain_byte c" using assms(1) t by (metis list.set_intros(1) list_all_iff set_rev)
  then have "trim_left (map rev space_encodings) (c # t) = c # t"
    by (intro trim_left_id strip_plain_rev)
  moreover have "strip_one (map rev space_encodings) (10 # c # t) = Some (c # t)"
    by (simp add: space_encodings_def)
  ultimately have "trim_left (map rev space_encodings) (10 # rev s) = rev s"
    by (simp add: t trim_left.simps [of _ "10 # _"])
  then show ?thesis by (simp add: trim_space_def l)
qed

lemma plain_digit: "is_digit c \<or> c = CHR ''-'' \<Longrightarrow> plain_byte (byte_of c)"
proof (elim disjE)
  assume "is_digit c"
  then have "48 \<le> (of_char c :: int)" "(of_char c :: int) \<le> 57"
    by (auto simp: is_digit_def digit_val_def)
  moreover have "(of_char c :: int) = int (of_char c)" by (cases c) simp
  ultimately have "48 \<le> (of_char c :: nat)" "(of_char c :: nat) \<le> 57" by linarith+
  then show "plain_byte (byte_of c)"
    by (simp add: plain_byte_def byte_of_def word_le_nat_alt unat_of_nat)
qed (simp add: plain_byte_def byte_of_def)

lemma trim_header: "trim_space (portHeader port) = str_bytes (itoa port)"
proof -
  have "list_all plain_byte (str_bytes (itoa port))"
    using itoa_chars [of _ port] plain_digit by (auto simp: str_bytes_def list_all_iff)
  then show ?thesis unfolding portHeader_def by (intro trim_space_header) simp_all
qed

lemma decode_header:
  assumes "min_int64 \<le> port" and "port \<le> max_int64"
  shows "fst (atoi (bytes_str (trim_space (portHeader port)))) = port"
  by (simp add: trim_header atoi_itoa [OF assms])

lemma length_show_digits:
  "0 \<le> n \<Longrightarrow> n < 10 ^ Suc k \<Longrightarrow> length (show_digits n) \<le> Suc k"
proof (induction k arbitrary: n)
  case 0
  then show ?case by (simp add: show_digits.simps [of n])
next
  case (Suc k)
  show ?case
  proof (cases "n < 10")
    case False
    have "n div 10 < 10 ^ Suc k" using Suc.prems by (simp add: div_less_iff_less_mult)
    with Suc.IH [of "n div 10"] Suc.prems False show ?thesis by (simp add: show_digits.simps [of n])
  qed (simp add: show_digits.simps [of n])
qed

lemma length_portHeader:
  assumes "1 \<le> port" and "port \<le> 65535"
  shows "length (portHeader port) \<le> 6"
  using length_show_digits [of port 4] assms by (simp add: portHeader_def itoa_def)

subsection \<open>Properties\<close>

text \<open>
  C15. What the client delivers to its target, for a connection on which the server wrote the header of the
  port and the user's bytes behind it, however the stream is segmented: everything but the first
  \<^verbatim>\<open>Read\<close>. So the target gets exactly the user's bytes if and only if the first \<^verbatim>\<open>Read\<close> ended where
  the header ends; bytes that arrived together with the header are lost, and a header that
  arrived in pieces is partly delivered. The count of received bytes is what was delivered.
\<close>

theorem delivered_to_target:
  assumes "clean user" and "\<not> closed strm" and "tx strm = []"
    and "length user + length (stream user) < wleft strm"
    and "clean evs" and "evs = Seg first # later"
    and "stream evs = concat (tx (snd (the (forward_user port strm user))))"
    and "dial (target_addr cfg) = Some target" and "\<not> closed target" and "tx target = []"
    and "length evs + length (stream evs) < wleft target"
  shows "\<exists>p n d. handleIncomingStream cfg dial evs = (p, target_addr cfg, Tcp n d)
    \<and> concat (tx d) = drop (min 64 (length first)) (portHeader port @ stream user)
    \<and> n = length (concat (tx d))
    \<and> (concat (tx d) = stream user \<longleftrightarrow> min 64 (length first) = length (portHeader port))"
proof -
  let ?h = "portHeader port" and ?k = "min 64 (length first)"
  let ?s1 = "strm\<lparr>tx := [?h], wleft := wleft strm - 1\<rparr>"
  have "conn_write ?h strm = (True, ?s1)" using assms(2-4) by simp
  moreover have "length user + length (stream user) \<le> wleft ?s1" using assms(4) by simp
  then obtain d1 where "io_copy ?s1 user = (length (stream user), d1, [])"
    "concat (tx d1) = concat (tx ?s1) @ stream user"
    using io_copy_all [of user ?s1] assms(1,2) by auto
  ultimately have content: "stream evs = ?h @ stream user"
    using assms(7) by (simp add: forward_user_def)
  obtain r where rd: "ev_read 64 evs = ((take ?k first, False), r)" "clean r"
    "stream r = drop ?k (stream evs)" "length r \<le> length evs"
    using assms(5,6) by (cases "length first \<le> 64") (auto simp: min_def)
  have "length (stream r) \<le> length (stream evs)" by (simp add: rd(3))
  with rd(4) assms(11) have "length r + length (stream r) \<le> wleft target" by linarith
  from io_copy_all [OF rd(2) assms(9) this] obtain d where
    d: "io_copy target r = (length (stream r), d, [])" "concat (tx d) = stream r"
    using assms(10) by auto
  have "drop ?k (?h @ stream user) = stream user \<longleftrightarrow> ?k = length ?h"
  proof
    assume eq: "drop ?k (?h @ stream user) = stream user"
    have "?k \<le> length (stream evs)" using assms(6) by simp
    then show "?k = length ?h"
      using arg_cong [OF eq, of length] content by simp
  qed simp
  then show ?thesis
    using rd d assms(8) content by (simp add: handleIncomingStream_def Let_def)
qed

lemma delivered_to_target_witness:
  "\<exists>p n d. handleIncomingStream zero_client (\<lambda>_. Some (new_conn [] 100))
       [Seg (portHeader 80 @ [7, 8]), Seg [9]] = (p, target_addr zero_client, Tcp n d)
     \<and> concat (tx d) = [9]"
proof -
  have h: "portHeader 80 = [56, 48, 10]"
    by code_simp
  have "io_copy ((new_conn [] 100)\<lparr>tx := [[56, 48, 10]], wleft := 99\<rparr>) [Seg [7, 8, 9]]
      = (3, (new_conn [] 100)\<lparr>tx := [[56, 48, 10], [7, 8, 9]], wleft := 98\<rparr>, [])"
    by (simp add: io_copy.simps new_conn_def)
  then have "stream [Seg (portHeader 80 @ [7, 8]), Seg [9]]
      = concat (tx (snd (the (forward_user 80 (new_conn [] 100) [Seg [7, 8, 9]]))))"
    by (simp add: forward_user_def h new_conn_def)
  from delivered_to_target [of "[Seg [7, 8, 9]]" "new_conn [] 100" _ _ _ 80, OF _ _ _ _ _ refl this,
      of "\<lambda>_. Some (new_conn [] 100)" zero_client "new_conn [] 100"]
  show ?thesis by (auto simp: new_conn_def h)
qed

text \<open>
  When the header arrives alone, the client decodes the port that the server was asked for, for every
  valid port, and delivers to its target exactly what follows.
\<close>

theorem port_header_roundtrip:
  assumes "1 \<le> port" and "port \<le> 65535"
  shows "fst (handleIncomingStream cfg dial (Seg (portHeader port) # later)) = port
    \<and> snd (snd (handleIncomingStream cfg dial (Seg (portHeader port) # later)))
        = (case dial (target_addr cfg) of
             None \<Rightarrow> Udp (udp_datagrams later)
           | Some target \<Rightarrow> Tcp (fst (io_copy target later)) (fst (snd (io_copy target later))))"
proof -
  have "length (portHeader port) \<le> 64" using length_portHeader [OF assms] by simp
  moreover have "fst (atoi (bytes_str (trim_space (portHeader port)))) = port"
    using assms by (intro decode_header) (simp_all add: min_int64_def max_int64_def)
  ultimately show ?thesis
    by (simp add: handleIncomingStream_def Let_def split: option.split prod.split)
qed

lemma port_header_roundtrip_witness:
  "fst (handleIncomingStream zero_client (\<lambda>_. None) [Seg (portHeader 8080)]) = 8080"
  using port_header_roundtrip [of 8080 zero_client "\<lambda>_. None" "[]"] by simp

text \<open>
  Without a TCP target the bytes go out as datagrams: none is lost or reordered and none is longer than
  the buffer, but their boundaries are those of the reads, not those of the sender.
\<close>

theorem datagram_boundaries_are_reads:
  assumes "clean evs"
  shows "concat (udp_datagrams evs) = stream evs
    \<and> list_all (\<lambda>d. length d \<le> 32768) (udp_datagrams evs)
    \<and> (list_all (\<lambda>e. length (ev_bytes e) \<le> 32768) evs \<longrightarrow> udp_datagrams evs = map ev_bytes evs)"
  using assms
proof (induction evs rule: udp_datagrams.induct)
  case (1 evs)
  show ?case
  proof (cases evs)
    case (Cons e es)
    then obtain bs where e: "e = Seg bs" using "1.prems" by (cases e) auto
    show ?thesis
    proof (cases "length bs \<le> 32768")
      case True
      with "1.IH" [of "(bs, False)" es bs False] "1.prems" Cons e show ?thesis
        by (simp add: udp_datagrams.simps [of "Seg bs # es"])
    next
      case False
      with "1.IH" [of "(take 32768 bs, False)" "Seg (drop 32768 bs) # es" "take 32768 bs" False]
        "1.prems" Cons e show ?thesis
        by (simp add: udp_datagrams.simps [of "Seg bs # es"])
    qed
  qed (simp add: udp_datagrams.simps)
qed

lemma datagram_boundaries_are_reads_witness:
  "udp_datagrams [Seg [1], Seg [2, 3]] = [[1], [2, 3]]"
  using datagram_boundaries_are_reads [of "[Seg [1], Seg [2, 3]]"] by simp

end
