(* ===== verification/Forwarded_Flow.thy ===== *)
theory Forwarded_Flow
  imports Forwarding
begin

text \<open>
  One forwarded connection with all that runs for it at once: \<open>handleProxyConnection\<close> on the server
  (\<^verbatim>\<open>pkg/server/server.go\<close>) with its two copies, the datagram proxy it starts on the same stream
  (\<open>StartServerForwarding\<close> in \<^verbatim>\<open>pkg/udp/udp.go\<close>) with its two loops, and \<open>handleIncomingStream\<close> on
  the client (\<^verbatim>\<open>pkg/client/client.go\<close>) with its two copies, for a target that can be dialled. The
  stream is a queue of bytes in each direction; a \<^verbatim>\<open>Read\<close> takes some beginning of a queue. The six
  loops and the three functions that wait for them interleave in any order: an action is one
  section of one of them, or something the world does.
\<close>

subsection \<open>State\<close>

text \<open>
  Bytes wait to be read in the first four queues (what the user and the target have sent, and the
  two directions of the stream); the last three are what was written to the user, to the target, and
  to the datagram socket, which drops it. \<open>fin\<close>: no more is written to the queue.
\<close>

datatype chan = User_In | Up | Down | Target_In | User_Out | Target_Out | Dropped

datatype gor = S_Up | S_Down | C_Up | C_Down | P_Read | P_Write

text \<open>A copy loop is in its \<^verbatim>\<open>Read\<close>, in its \<^verbatim>\<open>Write\<close> with what it read, or has ended, perhaps with
  bytes it could not write.\<close>

datatype loop = Unstarted | Reading | Writing bytes | Ended bytes

datatype place = Unborn | Entry | Joining | Exited

record flow =
  public_port :: int
  queue :: "chan \<Rightarrow> bytes"
  fin :: "chan \<Rightarrow> bool"
  gor_at :: "gor \<Rightarrow> loop"
  server_at :: place
  proxy_at :: place
  client_at :: place
  expired :: bool
  headerBuf :: bytes
  sent :: "chan \<Rightarrow> bytes"
  injected :: bytes

text \<open>
  \<open>expired\<close>: the read deadline that the proxy has set on the server's end of the stream has passed.
  \<open>headerBuf\<close> is the client's buffer, and the last two record what the world has sent.
\<close>

definition new_flow :: "int \<Rightarrow> flow" where
  "new_flow p = \<lparr>public_port = p, queue = (\<lambda>_. []), fin = (\<lambda>_. False), gor_at = (\<lambda>_. Unstarted),
     server_at = Entry, proxy_at = Unborn, client_at = Entry, expired = False, headerBuf = [],
     sent = (\<lambda>_. []), injected = []\<rparr>"

fun held :: "loop \<Rightarrow> bytes" where
  "held (Writing b) = b"
| "held (Ended b) = b"
| "held _ = []"

fun has_ended :: "loop \<Rightarrow> bool" where
  "has_ended (Ended _) = True"
| "has_ended _ = False"

fun src :: "gor \<Rightarrow> chan" where
  "src S_Up = User_In"
| "src S_Down = Down"
| "src P_Read = Down"
| "src C_Up = Up"
| "src C_Down = Target_In"
| "src P_Write = Dropped"

fun dst :: "gor \<Rightarrow> chan" where
  "dst S_Up = Up"
| "dst S_Down = User_Out"
| "dst P_Read = Dropped"
| "dst P_Write = Up"
| "dst C_Up = Target_Out"
| "dst C_Down = Down"

abbreviation set_gor :: "gor \<Rightarrow> loop \<Rightarrow> flow \<Rightarrow> flow" where
  "set_gor g l c \<equiv> c\<lparr>gor_at := (gor_at c)(g := l)\<rparr>"

definition put :: "chan \<Rightarrow> bytes \<Rightarrow> flow \<Rightarrow> flow" where
  "put ch b c = c\<lparr>queue := (queue c)(ch := queue c ch @ b)\<rparr>"

definition close_end :: "chan \<Rightarrow> flow \<Rightarrow> flow" where
  "close_end ch c = c\<lparr>fin := (fin c)(ch := True)\<rparr>"

subsection \<open>The copy loops\<close>

text \<open>
  One \<^verbatim>\<open>Read\<close> of \<^verbatim>\<open>io.Copy\<close>, or of the proxy, with a buffer of 32 KiB: some of the bytes that
  wait. The proxy's other loop reads a datagram instead.
\<close>

definition copy_read :: "gor \<Rightarrow> nat \<Rightarrow> flow \<Rightarrow> flow option" where
  "copy_read g n c =
     (let q = queue c (src g)
      in if gor_at c g = Reading \<and> g \<noteq> P_Write \<and> 0 < n \<and> n \<le> min 32768 (length q)
         then Some (set_gor g (Writing (take n q)) (c\<lparr>queue := (queue c)(src g := drop n q)\<rparr>))
         else None)"

definition read_datagram :: "bytes \<Rightarrow> flow \<Rightarrow> flow option" where
  "read_datagram d c =
     (if gor_at c P_Write = Reading
      then Some (set_gor P_Write (Writing (take 32768 d)) (c\<lparr>injected := injected c @ take 32768 d\<rparr>))
      else None)"

text \<open>
  The \<^verbatim>\<open>Write\<close> of what was read: refused by an end that is closed. The proxy's write to its socket
  always fails and it goes on, setting a new deadline for its next \<^verbatim>\<open>Read\<close>.
\<close>

definition copy_write :: "gor \<Rightarrow> flow \<Rightarrow> flow option" where
  "copy_write g c =
     (case gor_at c g of
        Writing b \<Rightarrow>
          if fin c (dst g) then Some (set_gor g (Ended b) c)
          else Some (set_gor g Reading
                 ((put (dst g) b c)\<lparr>expired := (if g = P_Read then False else expired c)\<rparr>))
      | _ \<Rightarrow> None)"

text \<open>
  A \<^verbatim>\<open>Read\<close> that returns an error: the other side is closed and all was read, the deadline has
  passed and nothing is there, or the own end was closed.
\<close>

definition read_ends :: "gor \<Rightarrow> flow \<Rightarrow> bool" where
  "read_ends g c \<longleftrightarrow>
     g \<noteq> P_Write \<and> queue c (src g) = [] \<and> (fin c (src g) \<or> src g = Down \<and> expired c)
   \<or> src g = Down \<and> fin c Up \<or> src g = Up \<and> fin c Down"

definition copy_end :: "gor \<Rightarrow> flow \<Rightarrow> flow option" where
  "copy_end g c =
     (if gor_at c g = Reading \<and> read_ends g c then Some (set_gor g (Ended []) c) else None)"

text \<open>A failure of the network or of a peer: a \<^verbatim>\<open>Read\<close> fails, or a \<^verbatim>\<open>Write\<close> after \<open>k\<close> bytes.\<close>

definition io_error :: "gor \<Rightarrow> nat \<Rightarrow> flow \<Rightarrow> flow option" where
  "io_error g k c =
     (case gor_at c g of
        Reading \<Rightarrow> Some (set_gor g (Ended []) c)
      | Writing b \<Rightarrow>
          if g = P_Read \<or> fin c (dst g) then None
          else Some (set_gor g (Ended (drop k b)) (put (dst g) (take k b) c))
      | _ \<Rightarrow> None)"

subsection \<open>The functions around the loops\<close>

text \<open>The header, the start of the proxy and of the two copies, and the end of \<open>handleProxyConnection\<close>.\<close>

definition write_header :: "bool \<Rightarrow> flow \<Rightarrow> flow option" where
  "write_header ok c =
     (if server_at c \<noteq> Entry then None
      else if \<not> ok then Some ((close_end User_Out (close_end Up c))\<lparr>server_at := Exited\<rparr>)
      else Some (set_gor S_Up Reading (set_gor S_Down Reading
             ((put Up (portHeader (public_port c)) c)\<lparr>server_at := Joining, proxy_at := Entry\<rparr>))))"

definition server_done :: "flow \<Rightarrow> flow option" where
  "server_done c =
     (if server_at c = Joining \<and> has_ended (gor_at c S_Up) \<and> has_ended (gor_at c S_Down)
      then Some ((close_end User_Out (close_end Up c))\<lparr>server_at := Exited\<rparr>) else None)"

text \<open>\<open>StartServerForwarding\<close>: \<open>bound\<close> says whether the datagram socket could be opened.\<close>

definition bind_proxy :: "bool \<Rightarrow> flow \<Rightarrow> flow option" where
  "bind_proxy bound c =
     (if proxy_at c \<noteq> Entry then None
      else if \<not> bound then Some ((close_end Up c)\<lparr>proxy_at := Exited\<rparr>)
      else Some (set_gor P_Read Reading (set_gor P_Write Reading (c\<lparr>proxy_at := Joining\<rparr>))))"

definition proxy_done :: "flow \<Rightarrow> flow option" where
  "proxy_done c =
     (if proxy_at c = Joining \<and> has_ended (gor_at c P_Read) \<and> has_ended (gor_at c P_Write)
      then Some ((close_end Up c)\<lparr>proxy_at := Exited\<rparr>) else None)"

text \<open>\<open>handleIncomingStream\<close>: the one \<^verbatim>\<open>Read\<close> of the header, its failure, and the end.\<close>

definition read_header :: "nat \<Rightarrow> flow \<Rightarrow> flow option" where
  "read_header n c =
     (let q = queue c Up
      in if client_at c = Entry \<and> 0 < n \<and> n \<le> min 64 (length q)
         then Some (set_gor C_Up Reading (set_gor C_Down Reading
                (c\<lparr>headerBuf := take n q, queue := (queue c)(Up := drop n q), client_at := Joining\<rparr>)))
         else None)"

definition header_fails :: "flow \<Rightarrow> flow option" where
  "header_fails c =
     (if client_at c = Entry then Some ((close_end Down c)\<lparr>client_at := Exited\<rparr>) else None)"

definition client_done :: "flow \<Rightarrow> flow option" where
  "client_done c =
     (if client_at c = Joining \<and> has_ended (gor_at c C_Up) \<and> has_ended (gor_at c C_Down)
      then Some ((close_end Target_Out (close_end Down c))\<lparr>client_at := Exited\<rparr>) else None)"

subsection \<open>The world, and runs\<close>

text \<open>The user, or the target once it is dialled, sends or stops sending; the proxy's deadline passes.\<close>

definition may_send :: "chan \<Rightarrow> flow \<Rightarrow> bool" where
  "may_send ch c \<longleftrightarrow> \<not> fin c ch \<and> (ch = User_In \<or> ch = Target_In \<and> client_at c = Joining)"

definition peer_sends :: "chan \<Rightarrow> bytes \<Rightarrow> flow \<Rightarrow> flow option" where
  "peer_sends ch b c =
     (if may_send ch c then Some ((put ch b c)\<lparr>sent := (sent c)(ch := sent c ch @ b)\<rparr>) else None)"

definition peer_ends :: "chan \<Rightarrow> flow \<Rightarrow> flow option" where
  "peer_ends ch c = (if may_send ch c then Some (close_end ch c) else None)"

definition deadline :: "flow \<Rightarrow> flow option" where
  "deadline c = (if gor_at c P_Read = Reading then Some (c\<lparr>expired := True\<rparr>) else None)"

datatype action = WriteHeader bool | BindProxy bool | ReadHeader nat | HeaderFails
  | CopyRead gor nat | Datagram bytes | CopyWrite gor | CopyEnd gor | IoError gor nat
  | ServerDone | ProxyDone | ClientDone
  | PeerSends chan bytes | PeerEnds chan | Deadline

fun act :: "action \<Rightarrow> flow \<Rightarrow> flow option" where
  "act (WriteHeader ok) c = write_header ok c"
| "act (BindProxy ok) c = bind_proxy ok c"
| "act (ReadHeader n) c = read_header n c"
| "act HeaderFails c = header_fails c"
| "act (CopyRead g n) c = copy_read g n c"
| "act (Datagram d) c = read_datagram d c"
| "act (CopyWrite g) c = copy_write g c"
| "act (CopyEnd g) c = copy_end g c"
| "act (IoError g k) c = io_error g k c"
| "act ServerDone c = server_done c"
| "act ProxyDone c = proxy_done c"
| "act ClientDone c = client_done c"
| "act (PeerSends ch b) c = peer_sends ch b c"
| "act (PeerEnds ch) c = peer_ends ch c"
| "act Deadline c = deadline c"

text \<open>Nothing fails: no error, no deadline, and the socket of the proxy was opened.\<close>

fun smooth :: "action \<Rightarrow> bool" where
  "smooth (WriteHeader ok) = ok"
| "smooth (BindProxy ok) = ok"
| "smooth HeaderFails = False"
| "smooth (IoError g k) = False"
| "smooth Deadline = False"
| "smooth _ = True"

text \<open>What the program does by itself, as opposed to the world.\<close>

fun internal :: "action \<Rightarrow> bool" where
  "internal (Datagram d) = False"
| "internal HeaderFails = False"
| "internal (IoError g k) = False"
| "internal (PeerSends ch b) = False"
| "internal (PeerEnds ch) = False"
| "internal Deadline = False"
| "internal _ = True"

definition flow_step :: "(action \<Rightarrow> bool) \<Rightarrow> flow \<Rightarrow> flow \<Rightarrow> bool" where
  "flow_step P c d \<longleftrightarrow> (\<exists>a. P a \<and> act a c = Some d)"

abbreviation flow_reachable :: "int \<Rightarrow> flow \<Rightarrow> bool" where
  "flow_reachable p \<equiv> (flow_step (\<lambda>_. True))\<^sup>*\<^sup>* (new_flow p)"

fun acts :: "action list \<Rightarrow> flow \<Rightarrow> flow option" where
  "acts [] c = Some c"
| "acts (a # as) c = (case act a c of None \<Rightarrow> None | Some d \<Rightarrow> acts as d)"

lemma acts_reach: "acts as c = Some d \<Longrightarrow> list_all P as \<Longrightarrow> (flow_step P)\<^sup>*\<^sup>* c d"
proof (induction as arbitrary: c)
  case (Cons a as)
  then obtain e where e: "act a c = Some e" "acts as e = Some d" by (auto split: option.splits)
  have "flow_step P c e" using e Cons.prems by (auto simp: flow_step_def)
  moreover have "(flow_step P)\<^sup>*\<^sup>* e d" using e Cons by simp
  ultimately show ?case by (rule converse_rtranclp_into_rtranclp)
qed simp

lemmas action_defs = copy_read_def read_datagram_def copy_write_def copy_end_def io_error_def
  write_header_def server_done_def bind_proxy_def proxy_done_def read_header_def header_fails_def
  client_done_def peer_sends_def peer_ends_def deadline_def put_def close_end_def Let_def

end
