(* ===== verification/Forwarded_Connection.thy ===== *)
theory Forwarded_Connection
  imports Forwarded_Flow
begin

text \<open>
  What holds of a forwarded connection over every interleaving of its six loops: no byte is lost,
  doubled or reordered on either way except by the datagram proxy, a stream that was closed takes
  nothing more, and neither side tells the other that its peer has finished.
\<close>

subsection \<open>Interleavings\<close>

lemma shuffles_snoc_left: "w \<in> shuffles xs ys \<Longrightarrow> w @ [b] \<in> shuffles (xs @ [b]) ys"
proof (induction xs ys arbitrary: w rule: shuffles.induct)
  case (1 ys)
  then show ?case by (induction ys arbitrary: w) (auto simp: Cons_in_shuffles_iff)
next
  case (3 x xs y ys)
  then show ?case by (cases w) (auto simp: Cons_in_shuffles_iff)
qed simp

lemma shuffles_append_left: "w \<in> shuffles xs ys \<Longrightarrow> w @ bs \<in> shuffles (xs @ bs) ys"
proof (induction bs arbitrary: w xs)
  case (Cons b bs)
  from Cons.IH [OF shuffles_snoc_left [OF Cons.prems, of b]] show ?case by simp
qed simp

lemma shuffles_append_right: "w \<in> shuffles xs ys \<Longrightarrow> w @ bs \<in> shuffles xs (ys @ bs)"
  using shuffles_append_left [of w ys xs bs] by (simp add: shuffles_commutes)

lemma shuffles_subseq: "w \<in> shuffles xs ys \<Longrightarrow> subseq xs w \<and> subseq ys w"
  by (induction xs ys arbitrary: w rule: shuffles.induct) auto

lemma take_drop_rest [simp]: "take k b @ drop k b @ r = b @ r"
  by (metis append.assoc append_take_drop_id)

subsection \<open>No byte is made up, reordered or duplicated\<close>

definition flow_header :: "flow \<Rightarrow> bytes" where
  "flow_header c = (if gor_at c S_Up = Unstarted then [] else portHeader (public_port c))"

lemma flow_header_frame [simp]:
  "flow_header (c\<lparr>queue := q\<rparr>) = flow_header c"
  "flow_header (c\<lparr>fin := f\<rparr>) = flow_header c"
  "flow_header (c\<lparr>server_at := x\<rparr>) = flow_header c"
  "flow_header (c\<lparr>proxy_at := x\<rparr>) = flow_header c"
  "flow_header (c\<lparr>client_at := x\<rparr>) = flow_header c"
  "flow_header (c\<lparr>expired := e\<rparr>) = flow_header c"
  "flow_header (c\<lparr>headerBuf := h\<rparr>) = flow_header c"
  "flow_header (c\<lparr>sent := z\<rparr>) = flow_header c"
  "flow_header (c\<lparr>injected := h\<rparr>) = flow_header c"
  "(m S_Up = Unstarted \<longleftrightarrow> gor_at c S_Up = Unstarted) \<Longrightarrow> flow_header (c\<lparr>gor_at := m\<rparr>) = flow_header c"
  by (simp_all add: flow_header_def)

definition places_ok :: "flow \<Rightarrow> bool" where
  "places_ok c \<longleftrightarrow>
     (server_at c = Entry \<longrightarrow> gor_at c S_Up = Unstarted)
   \<and> (gor_at c S_Up = Unstarted \<longrightarrow> proxy_at c = Unborn \<and> gor_at c S_Down = Unstarted)
   \<and> (proxy_at c = Unborn \<or> proxy_at c = Entry \<longrightarrow>
        gor_at c P_Read = Unstarted \<and> gor_at c P_Write = Unstarted)
   \<and> (client_at c = Entry \<longrightarrow> gor_at c C_Up = Unstarted \<and> gor_at c C_Down = Unstarted
        \<and> headerBuf c = [] \<and> queue c Target_Out = [])
   \<and> \<not> fin c Dropped"

text \<open>Towards the target: \<open>fu\<close> was written for the user and \<open>dg\<close> by the proxy.\<close>

definition up_ok :: "bytes \<Rightarrow> bytes \<Rightarrow> flow \<Rightarrow> bool" where
  "up_ok fu dg c \<longleftrightarrow>
     sent c User_In = fu @ held (gor_at c S_Up) @ queue c User_In
   \<and> injected c = dg @ held (gor_at c P_Write)
   \<and> (gor_at c S_Up = Unstarted \<longrightarrow> fu = [] \<and> dg = [])
   \<and> (\<exists>w \<in> shuffles fu dg.
        headerBuf c @ queue c Target_Out @ held (gor_at c C_Up) @ queue c Up = flow_header c @ w)"

text \<open>Towards the user: \<open>w\<close> is what the server's end has read.\<close>

definition down_ok :: "flow \<Rightarrow> bool" where
  "down_ok c \<longleftrightarrow>
     (\<exists>w \<in> shuffles (queue c User_Out @ held (gor_at c S_Down)) (queue c Dropped @ held (gor_at c P_Read)).
        sent c Target_In = w @ queue c Down @ held (gor_at c C_Down) @ queue c Target_In)"

text \<open>The actions of the loops leave the functions where they are.\<close>

fun loop_action :: "action \<Rightarrow> bool" where
  "loop_action (CopyRead g n) = True"
| "loop_action (CopyWrite g) = True"
| "loop_action (CopyEnd g) = True"
| "loop_action (IoError g k) = True"
| "loop_action (Datagram d) = True"
| "loop_action _ = False"

lemma loop_action_cases [consumes 1, case_names CopyRead CopyWrite CopyEnd IoError Datagram]:
  assumes "loop_action a"
    and "\<And>g n. a = CopyRead g n \<Longrightarrow> P" and "\<And>g. a = CopyWrite g \<Longrightarrow> P"
    and "\<And>g. a = CopyEnd g \<Longrightarrow> P" and "\<And>g k. a = IoError g k \<Longrightarrow> P"
    and "\<And>d. a = Datagram d \<Longrightarrow> P"
  shows P
  using assms by (cases a) auto

lemma src_dst_Target_Out [simp]:
  "src g \<noteq> Target_Out" "Target_Out \<noteq> src g" "dst g = Target_Out \<longleftrightarrow> g = C_Up"
  "Target_Out = dst g \<longleftrightarrow> g = C_Up"
  by (cases g; simp)+

lemma loop_action_frame:
  assumes "act a c = Some d" and "loop_action a"
  shows "server_at d = server_at c \<and> proxy_at d = proxy_at c \<and> client_at d = client_at c
    \<and> headerBuf d = headerBuf c \<and> fin d = fin c \<and> public_port d = public_port c \<and> sent d = sent c
    \<and> (gor_at d h = Unstarted \<longleftrightarrow> gor_at c h = Unstarted)
    \<and> (gor_at c C_Up = Unstarted \<longrightarrow> queue d Target_Out = queue c Target_Out)"
  using assms(2)
proof (cases a rule: loop_action_cases)
  case (CopyRead g n)
  with assms(1) show ?thesis by (auto simp: copy_read_def Let_def split: if_splits)
next
  case (CopyWrite g)
  with assms(1) show ?thesis by (auto simp: copy_write_def put_def split: if_splits loop.splits)
next
  case (CopyEnd g)
  with assms(1) show ?thesis by (auto simp: copy_end_def split: if_splits)
next
  case (IoError g k)
  with assms(1) show ?thesis by (auto simp: io_error_def put_def split: if_splits loop.splits)
next
  case (Datagram b)
  with assms(1) show ?thesis by (auto simp: read_datagram_def split: if_splits)
qed

lemma places_ok_loop: "act a c = Some d \<Longrightarrow> loop_action a \<Longrightarrow> places_ok c \<Longrightarrow> places_ok d"
  using loop_action_frame [of a c d] by (simp add: places_ok_def)

lemma places_ok_act:
  assumes "act a c = Some d" and "places_ok c"
  shows "places_ok d"
proof (cases a)
  case (WriteHeader ok)
  with assms show ?thesis
    by (cases ok; clarsimp simp: write_header_def put_def close_end_def split: if_splits;
        simp add: places_ok_def)
next
  case (BindProxy ok)
  with assms show ?thesis
    by (cases ok; clarsimp simp: bind_proxy_def close_end_def split: if_splits; simp add: places_ok_def)
next
  case (ReadHeader n)
  with assms show ?thesis
    by (clarsimp simp: read_header_def Let_def split: if_splits; simp add: places_ok_def)
next
  case (PeerSends ch b)
  with assms show ?thesis
    by (cases ch; clarsimp simp: peer_sends_def put_def may_send_def split: if_splits;
        simp add: places_ok_def)
next
  case (PeerEnds ch)
  with assms show ?thesis
    by (cases ch; clarsimp simp: peer_ends_def close_end_def may_send_def split: if_splits;
        simp add: places_ok_def)
qed (use assms places_ok_loop [OF assms(1) _ assms(2)] in
    \<open>clarsimp simp: header_fails_def server_done_def proxy_done_def client_done_def deadline_def
      close_end_def split: if_splits; simp add: places_ok_def\<close>)+

lemma new_flow_places: "places_ok (new_flow p)"
  by (simp add: places_ok_def new_flow_def)

lemma places_ok_started:
  "places_ok c \<Longrightarrow> gor_at c P_Write \<noteq> Unstarted \<Longrightarrow> gor_at c S_Up \<noteq> Unstarted"
  by (auto simp: places_ok_def)

lemma up_ok_expired [simp]: "up_ok fu dg (c\<lparr>expired := e\<rparr>) = up_ok fu dg c"
  by (simp add: up_ok_def flow_header_def)

lemma user_bytes_written:
  assumes "up_ok fu dg c" and "gor_at c S_Up = Writing (x @ y)" and "held l = y" and "l \<noteq> Unstarted"
  shows "up_ok (fu @ x) dg (set_gor S_Up l (put Up x c))"
proof -
  from assms(1,2) obtain w where w: "w \<in> shuffles fu dg" "sent c User_In = fu @ x @ y @ queue c User_In"
    "injected c = dg @ held (gor_at c P_Write)"
    "headerBuf c @ queue c Target_Out @ held (gor_at c C_Up) @ queue c Up = flow_header c @ w"
    by (auto simp: up_ok_def)
  have "w @ x \<in> shuffles (fu @ x) dg" by (rule shuffles_append_left [OF w(1)])
  moreover have "headerBuf c @ queue c Target_Out @ held (gor_at c C_Up) @ queue c Up @ x = flow_header c @ w @ x"
    using w(4) by (metis append.assoc)
  ultimately show ?thesis using assms(2-4) w(2,3)
    by (simp add: up_ok_def put_def flow_header_def) (rule bexI [of _ "w @ x"]; simp)
qed

lemma datagram_written:
  assumes "up_ok fu dg c" and "gor_at c P_Write = Writing (x @ y)" and "held l = y"
    and "gor_at c S_Up \<noteq> Unstarted"
  shows "up_ok fu (dg @ x) (set_gor P_Write l (put Up x c))"
proof -
  from assms(1,2) obtain w where w: "w \<in> shuffles fu dg" "injected c = dg @ x @ y"
    "sent c User_In = fu @ held (gor_at c S_Up) @ queue c User_In"
    "headerBuf c @ queue c Target_Out @ held (gor_at c C_Up) @ queue c Up = flow_header c @ w"
    by (auto simp: up_ok_def)
  have "w @ x \<in> shuffles fu (dg @ x)" by (rule shuffles_append_right [OF w(1)])
  moreover have "headerBuf c @ queue c Target_Out @ held (gor_at c C_Up) @ queue c Up @ x = flow_header c @ w @ x"
    using w(4) by (metis append.assoc)
  ultimately show ?thesis using assms(2-4) w(2,3)
    by (simp add: up_ok_def put_def flow_header_def) (rule bexI [of _ "w @ x"]; simp)
qed

text \<open>The other actions write nothing to the stream towards the target.\<close>

definition uploads :: "action \<Rightarrow> bool" where
  "uploads a \<longleftrightarrow> a = CopyWrite S_Up \<or> a = CopyWrite P_Write
     \<or> (\<exists>k. a = IoError S_Up k \<or> a = IoError P_Write k)"

lemma up_ok_other:
  assumes "act a c = Some d" and "places_ok c" and "up_ok fu dg c" and "\<not> uploads a \<or> fin c Up"
  shows "up_ok fu dg d"
proof (cases a)
  case (WriteHeader ok)
  with assms show ?thesis
    by (cases ok; clarsimp simp: write_header_def put_def close_end_def places_ok_def split: if_splits;
        simp add: up_ok_def flow_header_def)
next
  case (ReadHeader n)
  with assms show ?thesis
    by (clarsimp simp: read_header_def Let_def places_ok_def split: if_splits;
        simp add: up_ok_def)
next
  case (BindProxy ok)
  with assms show ?thesis
    by (cases ok; clarsimp simp: bind_proxy_def close_end_def places_ok_def split: if_splits;
        simp add: up_ok_def)
next
  case (CopyRead g n)
  with assms show ?thesis
    by (cases g; clarsimp simp: copy_read_def Let_def split: if_splits; simp add: up_ok_def)
next
  case (CopyWrite g)
  with assms show ?thesis
    by (cases g; clarsimp simp: copy_write_def uploads_def put_def split: if_splits loop.splits;
        simp add: up_ok_def)
next
  case (IoError g k)
  with assms show ?thesis
    by (cases g; clarsimp simp: io_error_def uploads_def put_def split: if_splits loop.splits;
        simp add: up_ok_def)
next
  case (CopyEnd g)
  with assms show ?thesis
    by (cases g; clarsimp simp: copy_end_def split: if_splits; simp add: up_ok_def)
next
  case (PeerSends ch b)
  with assms show ?thesis
    by (cases ch; clarsimp simp: peer_sends_def may_send_def put_def split: if_splits;
        simp add: up_ok_def)
qed (use assms in \<open>clarsimp simp: header_fails_def read_datagram_def server_done_def proxy_done_def
    client_done_def peer_ends_def deadline_def close_end_def split: if_splits;
    simp add: up_ok_def\<close>)+

lemma up_ok_act:
  assumes "act a c = Some d" and "places_ok c" and "up_ok fu dg c"
  shows "\<exists>fu' dg'. up_ok fu' dg' d"
proof (cases "uploads a \<and> \<not> fin c Up")
  case True
  note start = places_ok_started [OF assms(2)]
  from True consider "a = CopyWrite S_Up" | "a = CopyWrite P_Write"
    | k where "a = IoError S_Up k" | k where "a = IoError P_Write k"
    by (auto simp: uploads_def)
  then show ?thesis
  proof cases
    case 1
    then obtain b where "gor_at c S_Up = Writing b" using assms(1)
      by (auto simp: copy_write_def split: loop.splits)
    with 1 True assms(1) user_bytes_written [OF assms(3), of b "[]" Reading] show ?thesis
      by (auto simp: copy_write_def put_def)
  next
    case 2
    then obtain b where "gor_at c P_Write = Writing b" using assms(1)
      by (auto simp: copy_write_def split: loop.splits)
    with 2 True assms(1) start datagram_written [OF assms(3), of b "[]" Reading] show ?thesis
      by (auto simp: copy_write_def put_def)
  next
    case (3 k)
    show ?thesis
    proof (cases "gor_at c S_Up")
      case (Writing b)
      with 3 True assms(1) user_bytes_written [OF assms(3), of "take k b" "drop k b" "Ended (drop k b)"]
      show ?thesis by (auto simp: io_error_def)
    qed (use 3 assms in \<open>auto simp: io_error_def up_ok_def flow_header_def\<close>)
  next
    case (4 k)
    show ?thesis
    proof (cases "gor_at c P_Write")
      case (Writing b)
      with 4 True assms(1) start datagram_written [OF assms(3), of "take k b" "drop k b" "Ended (drop k b)"]
      show ?thesis by (auto simp: io_error_def)
    qed (use 4 assms in \<open>auto simp: io_error_def up_ok_def flow_header_def\<close>)
  qed
qed (use up_ok_other [OF assms] in blast)

lemma down_ok_act:
  assumes "act a c = Some d" and "places_ok c" and "down_ok c"
  shows "down_ok d"
proof (cases a)
  case (CopyRead g n)
  show ?thesis
  proof (cases "src g = Down")
    case True
    let ?b = "take n (queue c Down)"
    obtain w where w: "w \<in> shuffles (queue c User_Out @ held (gor_at c S_Down))
        (queue c Dropped @ held (gor_at c P_Read))"
      "sent c Target_In = w @ queue c Down @ held (gor_at c C_Down) @ queue c Target_In"
      using assms(3) by (auto simp: down_ok_def)
    have "sent c Target_In = (w @ ?b) @ drop n (queue c Down) @ held (gor_at c C_Down) @ queue c Target_In"
      by (simp add: w(2))
    with True CopyRead assms(1) shuffles_append_left [OF w(1), of ?b] shuffles_append_right [OF w(1), of ?b]
    show ?thesis
      by (cases g; clarsimp simp: copy_read_def Let_def split: if_splits; unfold down_ok_def;
          intro bexI [of _ "w @ ?b"]; simp)
  next
    case False
    with CopyRead assms show ?thesis
      by (cases g; clarsimp simp: copy_read_def Let_def split: if_splits; simp add: down_ok_def)
  qed
next
  case (WriteHeader ok)
  with assms show ?thesis
    by (cases ok; clarsimp simp: write_header_def put_def close_end_def places_ok_def split: if_splits;
        simp add: down_ok_def)
next
  case (ReadHeader n)
  with assms show ?thesis
    by (clarsimp simp: read_header_def Let_def places_ok_def split: if_splits; simp add: down_ok_def)
next
  case (BindProxy ok)
  with assms show ?thesis
    by (cases ok; clarsimp simp: bind_proxy_def close_end_def places_ok_def split: if_splits;
        simp add: down_ok_def)
next
  case (CopyWrite g)
  with assms show ?thesis
    by (cases g; clarsimp simp: copy_write_def put_def split: if_splits loop.splits; simp add: down_ok_def)
next
  case (IoError g k)
  with assms show ?thesis
    by (cases g; clarsimp simp: io_error_def put_def split: if_splits loop.splits; simp add: down_ok_def)
next
  case (CopyEnd g)
  with assms show ?thesis
    by (cases g; clarsimp simp: copy_end_def split: if_splits; simp add: down_ok_def)
next
  case (PeerSends ch b)
  with assms show ?thesis
    by (cases ch; clarsimp simp: peer_sends_def may_send_def put_def split: if_splits; simp add: down_ok_def)
qed (use assms in \<open>clarsimp simp: header_fails_def read_datagram_def server_done_def proxy_done_def
    client_done_def peer_ends_def deadline_def close_end_def split: if_splits; simp add: down_ok_def\<close>)+

definition flow_inv :: "int \<Rightarrow> flow \<Rightarrow> bool" where
  "flow_inv p c \<longleftrightarrow> places_ok c \<and> (\<exists>fu dg. up_ok fu dg c) \<and> down_ok c \<and> public_port c = p"

lemma act_port: "act a c = Some d \<Longrightarrow> public_port d = public_port c"
  by (cases a) (auto simp: action_defs split: if_splits loop.splits)

interpretation flow: step_invariant "flow_step P" "flow_inv p"
proof
  fix c d assume "flow_step P c d" and "flow_inv p c"
  then show "flow_inv p d"
    unfolding flow_step_def flow_inv_def
    using places_ok_act down_ok_act act_port up_ok_act by metis
qed

lemma flow_inv_init: "flow_inv p (new_flow p)"
proof -
  have "up_ok [] [] (new_flow p)" by (simp add: up_ok_def flow_header_def new_flow_def)
  then show ?thesis using new_flow_places [of p]
    by (auto simp: flow_inv_def down_ok_def) (auto simp: new_flow_def)
qed

subsection \<open>A closed stream takes nothing more\<close>

text \<open>All the bytes on the way to the target, the header included.\<close>

definition upstream :: "flow \<Rightarrow> bytes" where
  "upstream c = headerBuf c @ queue c Target_Out @ held (gor_at c C_Up) @ queue c Up"

definition cut_off :: "bytes \<Rightarrow> flow \<Rightarrow> bool" where
  "cut_off u c \<longleftrightarrow> places_ok c \<and> fin c Up \<and> gor_at c S_Up \<noteq> Unstarted \<and> upstream c = u"

lemma started_act:
  assumes "act a c = Some d" and "gor_at c S_Up \<noteq> Unstarted"
  shows "gor_at d S_Up \<noteq> Unstarted"
proof (cases "loop_action a")
  case True
  with loop_action_frame [OF assms(1) True, of S_Up] assms(2) show ?thesis by simp
next
  case False
  with assms show ?thesis by (cases a) (auto simp: action_defs split: if_splits)
qed

lemma cut_off_act:
  assumes "act a c = Some d" and "cut_off u c"
  shows "cut_off u d"
proof -
  have *: "fin c Up" "gor_at c S_Up \<noteq> Unstarted" "upstream c = u" "places_ok c"
    using assms(2) by (auto simp: cut_off_def)
  have "places_ok d" by (rule places_ok_act [OF assms(1) *(4)])
  moreover have "fin d Up" using assms(1) *(1)
    by (cases a) (auto simp: action_defs split: if_splits loop.splits)
  moreover have "gor_at d S_Up \<noteq> Unstarted" by (rule started_act [OF assms(1) *(2)])
  moreover have "upstream d = u"
  proof (cases a)
    case (WriteHeader ok)
    with assms(1) *(2,4) show ?thesis by (auto simp: write_header_def places_ok_def)
  next
    case (ReadHeader n)
    with assms(1) * show ?thesis
      by (clarsimp simp: read_header_def Let_def upstream_def places_ok_def split: if_splits)
  next
    case (BindProxy ok)
    with assms(1) * show ?thesis
      by (clarsimp simp: bind_proxy_def close_end_def upstream_def split: if_splits)
  next
    case (CopyRead g n)
    with assms(1) * show ?thesis
      by (cases g; clarsimp simp: copy_read_def Let_def upstream_def split: if_splits)
  next
    case (CopyWrite g)
    with assms(1) * show ?thesis
      by (cases g; clarsimp simp: copy_write_def put_def upstream_def split: if_splits loop.splits)
  next
    case (IoError g k)
    with assms(1) * show ?thesis
      by (cases g; clarsimp simp: io_error_def put_def upstream_def split: if_splits loop.splits)
  next
    case (CopyEnd g)
    with assms(1) * show ?thesis
      by (cases g; clarsimp simp: copy_end_def upstream_def split: if_splits)
  next
    case (PeerSends ch b)
    with assms(1) * show ?thesis
      by (cases ch; clarsimp simp: peer_sends_def may_send_def put_def upstream_def split: if_splits)
  qed (use assms(1) * in \<open>clarsimp simp: header_fails_def read_datagram_def server_done_def
      proxy_done_def client_done_def peer_ends_def deadline_def close_end_def upstream_def
      split: if_splits\<close>)+
  ultimately show ?thesis by (simp add: cut_off_def)
qed

interpretation cut: step_invariant "flow_step P" "cut_off u"
  by unfold_locales (auto simp: flow_step_def dest: cut_off_act)

subsection \<open>Nobody passes on that a side has ended\<close>

definition still_up :: "flow \<Rightarrow> bool" where
  "still_up c \<longleftrightarrow> \<not> fin c Up \<and> \<not> fin c Down \<and> \<not> fin c User_Out \<and> \<not> fin c Target_Out \<and> \<not> fin c Dropped
     \<and> \<not> expired c \<and> server_at c \<noteq> Exited \<and> client_at c \<noteq> Exited
     \<and> \<not> has_ended (gor_at c S_Down) \<and> \<not> has_ended (gor_at c C_Up) \<and> \<not> has_ended (gor_at c P_Read)"

lemma still_up_act:
  assumes "act a c = Some d" and "smooth a" and "still_up c"
  shows "still_up d"
proof (cases a)
  case (CopyRead g n)
  with assms show ?thesis
    by (cases g; clarsimp simp: copy_read_def Let_def split: if_splits; simp add: still_up_def)
next
  case (CopyWrite g)
  with assms show ?thesis
    by (cases g; clarsimp simp: copy_write_def put_def still_up_def split: if_splits loop.splits)
next
  case (CopyEnd g)
  with assms show ?thesis
    by (cases g; clarsimp simp: copy_end_def read_ends_def still_up_def split: if_splits)
next
  case (PeerSends ch b)
  with assms show ?thesis
    by (cases ch; clarsimp simp: peer_sends_def may_send_def put_def still_up_def split: if_splits)
next
  case (PeerEnds ch)
  with assms show ?thesis
    by (cases ch; clarsimp simp: peer_ends_def may_send_def close_end_def still_up_def split: if_splits)
qed (use assms in \<open>clarsimp simp: write_header_def bind_proxy_def read_header_def Let_def put_def
    read_datagram_def server_done_def proxy_done_def client_done_def still_up_def split: if_splits\<close>)+

interpretation smooth_flow: step_invariant "flow_step smooth" still_up
  by unfold_locales (auto simp: flow_step_def dest: still_up_act)

subsection \<open>Runs\<close>

text \<open>Everything goes right so far: a request is delivered, and its response is on the stream.\<close>

definition exchange :: "int \<Rightarrow> bytes \<Rightarrow> bytes \<Rightarrow> action list" where
  "exchange p req resp =
     [WriteHeader True, BindProxy True, ReadHeader (length (portHeader p)), PeerSends User_In req,
      CopyRead S_Up (length req), CopyWrite S_Up, CopyRead C_Up (length req), CopyWrite C_Up,
      PeerSends Target_In resp, CopyRead C_Down (length resp), CopyWrite C_Down]"

definition exchanged :: "int \<Rightarrow> bytes \<Rightarrow> bytes \<Rightarrow> flow" where
  "exchanged p req resp =
     \<lparr>public_port = p, queue = (\<lambda>_. [])(Target_Out := req, Down := resp), fin = (\<lambda>_. False),
      gor_at = (\<lambda>_. Reading), server_at = Joining, proxy_at = Joining, client_at = Joining,
      expired = False, headerBuf = portHeader p, sent = (\<lambda>_. [])(User_In := req, Target_In := resp),
      injected = []\<rparr>"

definition chunk :: "bytes \<Rightarrow> bool" where
  "chunk b \<longleftrightarrow> 0 < length b \<and> length b \<le> 32768"

lemma header_readable: "1 \<le> p \<Longrightarrow> p \<le> 65535 \<Longrightarrow> portHeader p \<noteq> [] \<and> length (portHeader p) \<le> 64"
  using length_portHeader [of p] by (simp add: portHeader_def)

lemma acts_append: "acts (xs @ ys) c = (case acts xs c of None \<Rightarrow> None | Some d \<Rightarrow> acts ys d)"
  by (induction xs arbitrary: c) (auto split: option.split)

lemma exchange_run:
  assumes "1 \<le> p" and "p \<le> 65535" and "chunk req" and "chunk resp"
  shows "acts (exchange p req resp) (new_flow p) = Some (exchanged p req resp)"
  using header_readable [OF assms(1,2)] assms(3,4)
  by (simp add: exchange_def exchanged_def new_flow_def action_defs chunk_def may_send_def fun_eq_iff)
    (metis gor.exhaust)

subsection \<open>Properties\<close>

text \<open>
  C10. At every moment of every run, whatever fails: the header and what was written to the stream after it
  is an interleaving of a beginning of the user's bytes with a beginning of the datagrams, and the
  client's buffer, the target's bytes, the chunk in the client's hands and the bytes in the stream are
  this text in order, none lost or doubled. Towards the user, what the server has read of the
  target's bytes is an interleaving of what the user gets and what the datagram proxy takes and drops.
\<close>

theorem forwarded_bytes_conserved:
  assumes "flow_reachable p c"
  shows "(\<exists>fu dg. \<exists>w \<in> shuffles fu dg.
        sent c User_In = fu @ held (gor_at c S_Up) @ queue c User_In
        \<and> injected c = dg @ held (gor_at c P_Write)
        \<and> headerBuf c @ queue c Target_Out @ held (gor_at c C_Up) @ queue c Up
            = (if gor_at c S_Up = Unstarted then [] else portHeader p) @ w)
    \<and> (\<exists>w \<in> shuffles (queue c User_Out @ held (gor_at c S_Down))
                       (queue c Dropped @ held (gor_at c P_Read)).
        sent c Target_In = w @ queue c Down @ held (gor_at c C_Down) @ queue c Target_In)"
proof -
  have inv: "flow_inv p c" by (rule flow.reachable [OF assms flow_inv_init])
  then obtain fu dg where "up_ok fu dg c" by (auto simp: flow_inv_def)
  then have "\<exists>w \<in> shuffles fu dg.
        sent c User_In = fu @ held (gor_at c S_Up) @ queue c User_In
        \<and> injected c = dg @ held (gor_at c P_Write)
        \<and> headerBuf c @ queue c Target_Out @ held (gor_at c C_Up) @ queue c Up
            = (if gor_at c S_Up = Unstarted then [] else portHeader p) @ w"
    using inv by (auto simp: up_ok_def flow_header_def flow_inv_def)
  with inv show ?thesis unfolding flow_inv_def down_ok_def by blast
qed

lemma forwarded_bytes_conserved_witness:
  "\<exists>w \<in> shuffles [] [].
     sent (exchanged 80 [1, 2] [3, 4]) Target_In = w @ queue (exchanged 80 [1, 2] [3, 4]) Down"
  using forwarded_bytes_conserved [OF acts_reach [OF exchange_run [of 80 "[1, 2]" "[3, 4]"]]]
  by (simp add: chunk_def exchanged_def)



text \<open>
  C13. The datagram proxy that every connection starts interferes with it, although nothing fails. A whole
  response can go to the proxy, which drops it, so that the user gets nothing; and the bytes of a
  datagram that anybody sends to the public port are delivered to the target of the connection as if
  the user had sent them.
\<close>

theorem proxy_interferes:
  assumes "1 \<le> p" and "p \<le> 65535" and "chunk req" and "chunk b"
  shows "(\<exists>c. (flow_step smooth)\<^sup>*\<^sup>* (new_flow p) c \<and> sent c Target_In = b
        \<and> queue c Dropped = b \<and> queue c User_Out = [] \<and> queue c Down = []
        \<and> (\<forall>g. gor_at c g = Reading))
    \<and> (\<exists>c. (flow_step smooth)\<^sup>*\<^sup>* (new_flow p) c \<and> sent c User_In = req
        \<and> queue c Target_Out = req @ b)"
proof -
  note start = acts_reach [OF exchange_run [OF assms], of smooth]
  have smooth: "list_all smooth (exchange p req b)" by (simp add: exchange_def)
  let ?lose = "[CopyRead P_Read (length b), CopyWrite P_Read]"
  let ?inject = "[Datagram b, CopyWrite P_Write, CopyRead C_Up (length b), CopyWrite C_Up]"
  obtain c where c: "acts ?lose (exchanged p req b) = Some c" "sent c Target_In = b"
    "queue c Dropped = b" "queue c User_Out = []" "queue c Down = []" "\<forall>g. gor_at c g = Reading"
    using assms(4) by (simp add: exchanged_def action_defs chunk_def)
  obtain d where d: "acts ?inject (exchanged p req b) = Some d" "sent d User_In = req"
    "queue d Target_Out = req @ b"
    using assms(4) by (simp add: exchanged_def action_defs chunk_def)
  from start [OF smooth] acts_reach [OF c(1), of smooth] acts_reach [OF d(1), of smooth] c d
  show ?thesis by (auto intro: rtranclp_trans)
qed

lemma proxy_interferes_witness:
  "\<exists>c. (flow_step smooth)\<^sup>*\<^sup>* (new_flow 80) c \<and> sent c User_In = [1] \<and> queue c Target_Out = [1] @ [2, 3]"
  using proxy_interferes [of 80 "[1]" "[2, 3]"] by (simp add: chunk_def)

text \<open>
  C14. When the proxy cannot open its datagram socket, as for every connection to a port while an earlier one
  holds it, it closes the stream: from then on nothing more gets on its way to the target, whatever the user
  sends, and what the client and the target ever see is what was on its way before.
\<close>

theorem unbound_proxy_cuts_the_user_off:
  assumes "flow_reachable p c" and "bind_proxy False c = Some d"
    and "(flow_step (\<lambda>_. True))\<^sup>*\<^sup>* d e"
  shows "fin e Up \<and> upstream e = upstream c
    \<and> prefix (headerBuf e @ queue e Target_Out) (upstream c)"
proof -
  have ok: "places_ok c" using flow.reachable [OF assms(1) flow_inv_init] by (simp add: flow_inv_def)
  have entry: "proxy_at c = Entry" and d: "d = (close_end Up c)\<lparr>proxy_at := Exited\<rparr>"
    using assms(2) by (auto simp: bind_proxy_def split: if_splits)
  have "cut_off (upstream c) d"
    using ok entry places_ok_act [of "BindProxy False" c d] assms(2)
    by (auto simp: cut_off_def d upstream_def close_end_def places_ok_def)
  from cut.reachable [OF assms(3) this] have cut: "fin e Up" "upstream e = upstream c"
    by (simp_all add: cut_off_def)
  moreover have "prefix (headerBuf e @ queue e Target_Out) (upstream e)" by (simp add: upstream_def)
  ultimately show ?thesis by simp
qed

lemma unbound_proxy_cuts_the_user_off_witness:
  "\<exists>d e. acts [WriteHeader True, BindProxy False] (new_flow 80) = Some d
     \<and> acts [PeerSends User_In [1], CopyRead S_Up 1, CopyWrite S_Up] d = Some e
     \<and> sent e User_In = [1] \<and> upstream e = portHeader 80"
proof -
  obtain c where c: "acts [WriteHeader True] (new_flow 80) = Some c"
    by (simp add: new_flow_def action_defs)
  then have up: "upstream c = portHeader 80" by (auto simp: new_flow_def action_defs upstream_def)
  obtain d e where e: "bind_proxy False c = Some d"
    "acts [PeerSends User_In [1], CopyRead S_Up 1, CopyWrite S_Up] d = Some e" "sent e User_In = [1]"
    using c by (auto simp: new_flow_def action_defs may_send_def)
  have "upstream e = portHeader 80"
    using unbound_proxy_cuts_the_user_off [OF acts_reach [OF c] e(1) acts_reach [OF e(2)]] up by simp
  moreover have "acts [WriteHeader True, BindProxy False] (new_flow 80) = Some d"
    using c e(1) by (auto split: option.splits)
  ultimately show ?thesis using e(2,3) by blast
qed

text \<open>
  C11. No forwarded connection ends by itself. As long as nothing fails, neither function returns and neither
  end of the stream nor the user's or the target's connection is closed, whatever the user and the
  target do: each copy that ends waits for the other copy of its side, which waits for the other side.
  There is a run in which the user and the target have both finished, all is delivered and the
  program cannot move any more; unless the network fails, only the proxy's read deadline frees it,
  and then both functions return.
\<close>

theorem connection_never_ends_by_itself:
  assumes "1 \<le> p" and "p \<le> 65535" and "(flow_step smooth)\<^sup>*\<^sup>* (new_flow p) c"
  shows "server_at c \<noteq> Exited \<and> client_at c \<noteq> Exited \<and> \<not> fin c Up \<and> \<not> fin c Down
      \<and> \<not> fin c User_Out \<and> \<not> fin c Target_Out
    \<and> (\<exists>d. (flow_step smooth)\<^sup>*\<^sup>* (new_flow p) d \<and> fin d User_In \<and> fin d Target_In
        \<and> sent d Target_In = queue d User_Out \<and> sent d User_In = queue d Target_Out
        \<and> (\<forall>a. internal a \<longrightarrow> act a d = None)
        \<and> (\<exists>e. (flow_step (\<lambda>a. internal a \<or> a = Deadline))\<^sup>*\<^sup>* d e
              \<and> server_at e = Exited \<and> client_at e = Exited))"
proof -
  have "still_up (new_flow p)" by (simp add: still_up_def new_flow_def)
  from smooth_flow.reachable [OF assms(3) this] have "still_up c" .
  moreover
  let ?as = "exchange p [1] [2] @ [CopyRead S_Down 1, CopyWrite S_Down, PeerEnds User_In,
      PeerEnds Target_In, CopyEnd S_Up, CopyEnd C_Down]"
  let ?d = "(exchanged p [1] [2])\<lparr>queue := (\<lambda>_. [])(Target_Out := [1], User_Out := [2]),
      fin := (\<lambda>_. False)(User_In := True, Target_In := True),
      gor_at := (\<lambda>_. Reading)(S_Up := Ended [], C_Down := Ended [])\<rparr>"
  have d: "acts ?as (new_flow p) = Some ?d"
    using exchange_run [OF assms(1,2), of "[1]" "[2]"]
    by (simp add: acts_append chunk_def exchanged_def action_defs read_ends_def may_send_def fun_eq_iff)
  have "list_all smooth ?as" by (simp add: exchange_def)
  note acts_reach [OF d this]
  moreover have "act a ?d = None" if "internal a" for a
  proof (cases a)
    case (CopyRead g n)
    then show ?thesis by (cases g) (auto simp: exchanged_def copy_read_def)
  next
    case (CopyWrite g)
    then show ?thesis by (cases g) (simp_all add: exchanged_def copy_write_def)
  next
    case (CopyEnd g)
    then show ?thesis by (cases g) (simp_all add: exchanged_def copy_end_def read_ends_def)
  qed (use that in \<open>simp_all add: exchanged_def action_defs\<close>)
  moreover
  let ?free = "[Deadline, CopyEnd S_Down, ServerDone, CopyEnd C_Up, ClientDone]"
  obtain e where e: "acts ?free ?d = Some e" "server_at e = Exited" "client_at e = Exited"
    by (simp add: exchanged_def action_defs read_ends_def)
  have "list_all (\<lambda>a. internal a \<or> a = Deadline) ?free" by simp
  note acts_reach [OF e(1) this]
  ultimately show ?thesis using e(2,3)
    by (intro conjI exI [of _ ?d] exI [of _ e]) (simp_all add: still_up_def exchanged_def)
qed

lemma connection_never_ends_by_itself_witness:
  "server_at (exchanged 80 [1] [2]) \<noteq> Exited
   \<and> (\<exists>d. (flow_step smooth)\<^sup>*\<^sup>* (new_flow 80) d \<and> fin d User_In \<and> fin d Target_In
        \<and> (\<forall>a. internal a \<longrightarrow> act a d = None))"
proof -
  have "list_all smooth (exchange 80 [1] [2])" by (simp add: exchange_def)
  from connection_never_ends_by_itself [of 80, OF _ _ acts_reach [OF exchange_run this]]
  show ?thesis by (auto simp: chunk_def)
qed

end
