(* ===== verification/Udp_Framing.thy ===== *)
theory Udp_Framing
  imports Go_Std Conn
begin

text \<open>
  Datagrams over a stream (\<^verbatim>\<open>pkg/tunnel/udp.go\<close>, \<open>ForwardUDPOverTCP\<close>): the loop that writes every
  datagram behind its length in two bytes, and the loop that cuts the stream into datagrams
  again. The interface is that of a stream codec: one frame is read however the stream is
  segmented, and a cut-off frame gives nothing.
\<close>

text \<open>
  The \<^verbatim>\<open>UDP -> TCP\<close> goroutine, on the datagrams that arrive until \<^verbatim>\<open>ReadFrom\<close> fails; the buffer of
  65535 bytes cuts a longer one. The length goes through \<^verbatim>\<open>uint16\<close>.
\<close>

fun udp_to_tcp :: "bytes list \<Rightarrow> conn \<Rightarrow> conn" where
  "udp_to_tcp [] c = c"
| "udp_to_tcp (d # ds) c =
     (let buf = take 65535 d in
      case conn_write (put_uint16 (of_nat (length buf))) c of
        (False, c) \<Rightarrow> c
      | (True, c) \<Rightarrow>
        (case conn_write buf c of
           (False, c) \<Rightarrow> c
         | (True, c) \<Rightarrow> udp_to_tcp ds c))"

text \<open>One iteration of the \<^verbatim>\<open>TCP -> UDP\<close> goroutine up to the datagram it sends; None ends the loop.\<close>

definition read_frame :: "rx_event list \<Rightarrow> (bytes \<times> rx_event list) option" where
  "read_frame evs =
     (case ev_read_full 2 evs of
        (None, r) \<Rightarrow> None
      | (Some lengthBuf, r) \<Rightarrow>
        let len = unat (get_uint16 lengthBuf) in
        (case (if len = 0 then (Some [], r) else ev_read_full len r) of
           (None, r') \<Rightarrow> None
         | (Some data, r') \<Rightarrow> Some (data, r')))"

text \<open>The loop, of which the first \<open>n\<close> calls of \<^verbatim>\<open>udpConn.Write\<close> succeed: the datagrams sent.\<close>

fun receive_loop :: "(rx_event list \<Rightarrow> ('a \<times> rx_event list) option) \<Rightarrow> nat \<Rightarrow> rx_event list \<Rightarrow> 'a list" where
  "receive_loop rd 0 evs = []"
| "receive_loop rd (Suc n) evs =
     (case rd evs of None \<Rightarrow> [] | Some (x, r) \<Rightarrow> x # receive_loop rd n r)"

definition tcp_to_udp :: "nat \<Rightarrow> rx_event list \<Rightarrow> bytes list" where
  "tcp_to_udp n evs = receive_loop read_frame n evs"

subsection \<open>The interface of a stream codec\<close>

locale stream_codec =
  fixes enc :: "'a \<Rightarrow> bytes"
    and rd :: "rx_event list \<Rightarrow> ('a \<times> rx_event list) option"
    and valid :: "'a \<Rightarrow> bool"
  assumes rd_enc: "clean evs \<Longrightarrow> valid x \<Longrightarrow> stream evs = enc x @ rest \<Longrightarrow>
      \<exists>r. rd evs = Some (x, r) \<and> clean r \<and> stream r = rest"
    and rd_cut: "clean evs \<Longrightarrow> valid x \<Longrightarrow> strict_prefix (stream evs) (enc x) \<Longrightarrow> rd evs = None"
    and rd_end: "clean evs \<Longrightarrow> stream evs = [] \<Longrightarrow> rd evs = None"
begin

lemma receive_end: "clean evs \<Longrightarrow> stream evs = [] \<Longrightarrow> receive_loop rd n evs = []"
  by (cases n) (simp_all add: rd_end)

text \<open>All that was encoded is received, item by item.\<close>

lemma receive_all:
  "clean evs \<Longrightarrow> list_all valid xs \<Longrightarrow> stream evs = concat (map enc xs) \<Longrightarrow>
     receive_loop rd n evs = take n xs"
proof (induction xs arbitrary: evs n)
  case Nil
  then show ?case by (simp add: receive_end)
next
  case (Cons x xs)
  show ?case
  proof (cases n)
    case (Suc m)
    obtain r where "rd evs = Some (x, r)" "clean r" "stream r = concat (map enc xs)"
      using rd_enc [of evs x "concat (map enc xs)"] Cons.prems by auto
    with Cons.IH [of r m] Cons.prems Suc show ?thesis by simp
  qed simp
qed

text \<open>A stream that is cut off anywhere gives a beginning of the list, never a part of an item.\<close>

lemma receive_prefix:
  "clean evs \<Longrightarrow> list_all valid xs \<Longrightarrow> prefix (stream evs) (concat (map enc xs)) \<Longrightarrow>
     prefix (receive_loop rd n evs) xs"
proof (induction xs arbitrary: evs n)
  case Nil
  then show ?case by (simp add: receive_end)
next
  case (Cons x xs)
  show ?case
  proof (cases n)
    case (Suc m)
    from Cons.prems(3) have "prefix (stream evs) (enc x @ concat (map enc xs))" by simp
    then consider (cut) "strict_prefix (stream evs) (enc x)"
      | (full) s' where "stream evs = enc x @ s'" "prefix s' (concat (map enc xs))"
      unfolding prefix_append strict_prefix_def by (metis append_Nil2 Nil_prefix)
    then show ?thesis
    proof cases
      case cut
      with rd_cut [of evs x] Cons.prems Suc show ?thesis by simp
    next
      case (full s')
      obtain r where "rd evs = Some (x, r)" "clean r" "stream r = s'"
        using rd_enc [of evs x s'] Cons.prems full by auto
      with Cons.IH [of r m] Cons.prems full Suc show ?thesis by simp
    qed
  qed simp
qed

end

subsection \<open>The frames of the program\<close>

definition frame :: "bytes \<Rightarrow> bytes" where
  "frame d = put_uint16 (of_nat (length d)) @ d"

definition datagram_ok :: "bytes \<Rightarrow> bool" where
  "datagram_ok d \<longleftrightarrow> length d \<le> 65535"

lemma frame_length [simp]:
  "datagram_ok d \<Longrightarrow> unat (of_nat (length d) :: 16 word) = length d"
  by (simp add: datagram_ok_def unat_of_nat)

interpretation udp: stream_codec frame read_frame datagram_ok
proof
  fix evs d rest
  assume c: "clean evs" and ok: "datagram_ok d" and s: "stream evs = frame d @ rest"
  have "2 \<le> length (stream evs)" by (simp add: s frame_def)
  from ev_read_full_enough [OF c this] obtain r where
    r: "ev_read_full 2 evs = (Some (put_uint16 (of_nat (length d))), r)" "clean r" "stream r = d @ rest"
    by (auto simp: s frame_def)
  show "\<exists>r. read_frame evs = Some (d, r) \<and> clean r \<and> stream r = rest"
  proof (cases "d = []")
    case True
    with r show ?thesis by (simp add: read_frame_def)
  next
    case False
    from ev_read_full_enough [OF r(2), of "length d"] r(3)
    obtain r' where "ev_read_full (length d) r = (Some d, r')" "clean r'" "stream r' = rest" by auto
    with r False ok show ?thesis by (simp add: read_frame_def)
  qed
next
  fix evs d
  assume c: "clean evs" and ok: "datagram_ok d" and p: "strict_prefix (stream evs) (frame d)"
  show "read_frame evs = None"
  proof (cases "2 \<le> length (stream evs)")
    case False
    then show ?thesis using ev_read_full_short [OF c, of 2] by (simp add: read_frame_def)
  next
    case True
    from p obtain z where z: "frame d = stream evs @ z" "z \<noteq> []" by (auto simp: strict_prefix_def prefix_def)
    have t: "take 2 (stream evs) = put_uint16 (of_nat (length d))"
      using arg_cong [OF z(1), of "take 2"] True by (simp add: frame_def)
    have "0 < length z" using z(2) by simp
    moreover have "length (stream evs) + length z = 2 + length d"
      using arg_cong [OF z(1), of length] by (simp add: frame_def)
    ultimately have len: "length (stream evs) - 2 < length d" using True by linarith
    from ev_read_full_enough [OF c True] obtain r where
      r: "ev_read_full 2 evs = (Some (take 2 (stream evs)), r)" "clean r" "length (stream r) = length (stream evs) - 2"
      by auto
    then have "ev_read_full (length d) r = (None, [])"
      using len by (intro ev_read_full_short) auto
    with r t ok len show ?thesis by (auto simp: read_frame_def)
  qed
next
  fix evs assume c: "clean evs" and "stream evs = []"
  then have "length (stream evs) < 2" by (simp only: list.size)
  from ev_read_full_short [OF c this] show "read_frame evs = None" by (simp add: read_frame_def)
qed

lemma udp_to_tcp_bytes:
  "list_all datagram_ok ds \<Longrightarrow> \<not> closed c \<Longrightarrow> 2 * length ds \<le> wleft c \<Longrightarrow>
     concat (tx (udp_to_tcp ds c)) = concat (tx c) @ concat (map frame ds)"
proof (induction ds arbitrary: c)
  case (Cons d ds)
  then have "take 65535 d = d" by (simp add: datagram_ok_def)
  with Cons show ?case by (simp add: Let_def frame_def)
qed simp

text \<open>A connection that fails in the middle holds a beginning of the encoding.\<close>

lemma udp_to_tcp_prefix:
  "list_all datagram_ok ds \<Longrightarrow>
     \<exists>w. concat (tx (udp_to_tcp ds c)) = concat (tx c) @ w \<and> prefix w (concat (map frame ds))"
proof (induction ds arbitrary: c)
  case (Cons d ds)
  let ?l = "put_uint16 (of_nat (length d))"
  from Cons.prems have t: "take 65535 d = d" by (simp add: datagram_ok_def)
  obtain ok1 c1 where w1: "conn_write ?l c = (ok1, c1)" by (metis surj_pair)
  obtain ok2 c2 where w2: "conn_write d c1 = (ok2, c2)" by (metis surj_pair)
  show ?case
  proof (cases "ok1 \<and> ok2")
    case True
    then have "concat (tx c2) = concat (tx c) @ frame d"
      using w1 w2 by (auto simp: conn_write_def frame_def split: if_splits)
    moreover obtain w where "concat (tx (udp_to_tcp ds c2)) = concat (tx c2) @ w"
      and "prefix w (concat (map frame ds))"
      using Cons.IH [of c2] Cons.prems by auto
    ultimately show ?thesis using True w1 w2 t by (simp add: Let_def)
  next
    case False
    then have "concat (tx (udp_to_tcp (d # ds) c)) = concat (tx c)
        \<or> concat (tx (udp_to_tcp (d # ds) c)) = concat (tx c) @ ?l"
      using w1 w2 t by (auto simp: conn_write_def Let_def split: if_splits)
    then show ?thesis by (auto simp: frame_def)
  qed
qed simp

subsection \<open>Properties\<close>

text \<open>
  C16. Datagrams survive the stream: whatever was written for them before the connection failed, and
  however those bytes are segmented, the other side sends a beginning of the datagrams, each
  whole, in order and unchanged; and when nothing failed it sends all of them.
\<close>

theorem datagrams_survive_stream:
  assumes "list_all datagram_ok ds" and "tx c = []"
    and "clean evs" and "stream evs = concat (tx (udp_to_tcp ds c))"
  shows "prefix (tcp_to_udp n evs) ds
    \<and> (\<not> closed c \<and> 2 * length ds \<le> wleft c \<longrightarrow> tcp_to_udp n evs = take n ds)"
  using udp.receive_prefix [OF assms(3,1), of n] udp.receive_all [OF assms(3,1), of n]
    udp_to_tcp_prefix [OF assms(1), of c] udp_to_tcp_bytes [OF assms(1), of c] assms(2,4)
  by (auto simp: tcp_to_udp_def)

lemma datagrams_survive_stream_witness:
  "tcp_to_udp 5 (map (\<lambda>b. Seg [b]) (concat (tx (udp_to_tcp [[7, 8], [], [9]] (new_conn [] 6)))))
     = [[7, 8], [], [9]]"
  using datagrams_survive_stream [of "[[7, 8], [], [9]]" "new_conn [] 6"
      "map (\<lambda>b. Seg [b]) (concat (tx (udp_to_tcp [[7, 8], [], [9]] (new_conn [] 6))))" 5]
  by (simp add: datagram_ok_def new_conn_def put_uint16_def)

end
