(* ===== verification/Udp_Proxy.thy ===== *)
theory Udp_Proxy
  imports Forwarding
begin

text \<open>
  The two datagram proxies of \<^verbatim>\<open>pkg/udp/udp.go\<close>. Each runs two loops on one stream and one UDP socket: the
  bytes of a \<^verbatim>\<open>Read\<close> become a datagram, and a datagram becomes a \<^verbatim>\<open>Write\<close>. The server's socket comes
  from \<^verbatim>\<open>net.ListenUDP\<close>, which does not connect it to a peer; \<^verbatim>\<open>Write\<close> on such a socket fails, and
  the proxy ignores the error.
\<close>

record ServerUDPProxy =
  sp_port :: int
  sp_stream :: conn

record ClientUDPProxy =
  cp_target :: string
  cp_stream :: conn

text \<open>The constructors have an error result and never use it.\<close>

definition NewServerUDPProxy :: "int \<Rightarrow> conn \<Rightarrow> string + ServerUDPProxy" where
  "NewServerUDPProxy port strm = Inr \<lparr>sp_port = port, sp_stream = strm\<rparr>"

definition NewClientUDPProxy :: "string \<Rightarrow> conn \<Rightarrow> string + ClientUDPProxy" where
  "NewClientUDPProxy target strm = Inr \<lparr>cp_target = target, cp_stream = strm\<rparr>"

record udp_sock =
  u_connected :: bool
  u_sent :: "bytes list"

definition udp_write :: "bytes \<Rightarrow> udp_sock \<Rightarrow> bool \<times> udp_sock" where
  "udp_write d u = (if u_connected u then (True, u\<lparr>u_sent := u_sent u @ [d]\<rparr>) else (False, u))"

text \<open>The loop from the stream: reads until an error, and drops the result of each write.\<close>

definition stream_loop :: "rx_event list \<Rightarrow> udp_sock \<Rightarrow> udp_sock" where
  "stream_loop evs u = fold (\<lambda>d u. snd (udp_write d u)) (udp_datagrams evs) u"

text \<open>The loop from the socket, on the datagrams that arrive; the buffer of 32 KiB cuts a longer one.\<close>

fun socket_loop :: "bytes list \<Rightarrow> conn \<Rightarrow> conn" where
  "socket_loop [] c = c"
| "socket_loop (d # ds) c =
     (case conn_write (take 32768 d) c of
        (False, c) \<Rightarrow> c
      | (True, c) \<Rightarrow> socket_loop ds c)"

text \<open>
  \<open>resolved\<close> and \<open>opened\<close> are the answers of \<^verbatim>\<open>ResolveUDPAddr\<close> and of \<^verbatim>\<open>ListenUDP\<close> or \<^verbatim>\<open>DialUDP\<close>. The result
  is what went out on the socket and the stream, which the deferred call has closed.
\<close>

definition run_proxy :: "bool \<Rightarrow> bool \<Rightarrow> bool \<Rightarrow> bytes list \<Rightarrow> conn \<Rightarrow> bytes list \<times> conn" where
  "run_proxy connects resolved opened arriving strm =
     (if \<not> resolved then ([], conn_close strm)
      else if \<not> opened then ([], conn_close strm)
      else (u_sent (stream_loop (rx strm) \<lparr>u_connected = connects, u_sent = []\<rparr>),
            conn_close ((socket_loop arriving strm)\<lparr>rx := []\<rparr>)))"

definition StartServerForwarding :: "bool \<Rightarrow> bool \<Rightarrow> bytes list \<Rightarrow> conn \<Rightarrow> bytes list \<times> conn" where
  "StartServerForwarding = run_proxy False"

definition StartClientForwarding :: "bool \<Rightarrow> bool \<Rightarrow> bytes list \<Rightarrow> conn \<Rightarrow> bytes list \<times> conn" where
  "StartClientForwarding = run_proxy True"

text \<open>
  The two callers: the goroutine of \<open>handleProxyConnection\<close>, and the fallback of \<open>handleIncomingStream\<close> when the
  target cannot be dialled; \<open>resolved\<close> and \<open>opened\<close> are now answers for the address that the proxy was
  made for. The result of the fallback says whether the message that both ways have failed is logged.
\<close>

definition server_proxy_goroutine ::
    "(int \<Rightarrow> bool) \<Rightarrow> (int \<Rightarrow> bool) \<Rightarrow> bytes list \<Rightarrow> int \<Rightarrow> conn \<Rightarrow> bytes list \<times> conn" where
  "server_proxy_goroutine resolved opened arriving port strm =
     (case NewServerUDPProxy port strm of
        Inl err \<Rightarrow> ([], strm)
      | Inr p \<Rightarrow> StartServerForwarding (resolved (sp_port p)) (opened (sp_port p)) arriving (sp_stream p))"

definition client_fallback ::
    "(string \<Rightarrow> bool) \<Rightarrow> (string \<Rightarrow> bool) \<Rightarrow> bytes list \<Rightarrow> string \<Rightarrow> conn \<Rightarrow> bool \<times> bytes list \<times> conn" where
  "client_fallback resolved opened arriving target strm =
     (case NewClientUDPProxy target strm of
        Inr p \<Rightarrow> (False, StartClientForwarding (resolved (cp_target p)) (opened (cp_target p)) arriving (cp_stream p))
      | Inl err \<Rightarrow> (True, [], conn_close strm))"

text \<open>So the message is never logged, and a target that takes neither closes the stream without a word.\<close>

lemma fallback_is_silent:
  "fst (client_fallback resolved opened arriving target strm) = False"
  "\<not> resolved target \<or> \<not> opened target \<Longrightarrow>
     client_fallback resolved opened arriving target strm = (False, [], conn_close strm)"
  by (auto simp: client_fallback_def NewClientUDPProxy_def StartClientForwarding_def run_proxy_def)

lemma stream_loop_connected:
  "u_connected u \<Longrightarrow> u_sent (stream_loop evs u) = u_sent u @ udp_datagrams evs"
proof -
  have "u_connected u \<Longrightarrow> u_sent (fold (\<lambda>d u. snd (udp_write d u)) ds u) = u_sent u @ ds" for ds
    by (induction ds arbitrary: u) (simp_all add: udp_write_def)
  then show "u_connected u \<Longrightarrow> ?thesis" by (simp add: stream_loop_def)
qed

lemma stream_loop_unconnected: "\<not> u_connected u \<Longrightarrow> stream_loop evs u = u"
proof -
  have "\<not> u_connected u \<Longrightarrow> fold (\<lambda>d u. snd (udp_write d u)) ds u = u" for ds
    by (induction ds) (simp_all add: udp_write_def)
  then show "\<not> u_connected u \<Longrightarrow> ?thesis" by (simp add: stream_loop_def)
qed

lemma socket_loop_bytes:
  "\<not> closed c \<Longrightarrow> length ds \<le> wleft c \<Longrightarrow> tx (socket_loop ds c) = tx c @ map (take 32768) ds"
  by (induction ds arbitrary: c) simp_all

subsection \<open>Properties\<close>

text \<open>
  The datagram path works in one direction only. Whatever bytes arrive on the stream, the server's proxy
  sends no datagram, while the client's sends one for each read; both turn each datagram that
  arrives into one write of at most 32768 bytes, and both leave the stream closed, also when the
  socket could not be opened.
\<close>

theorem udp_path_is_one_way:
  assumes "\<not> closed strm" and "length arriving \<le> wleft strm"
  shows "fst (StartServerForwarding r l arriving strm) = []
    \<and> fst (StartClientForwarding r l arriving strm) = (if r \<and> l then udp_datagrams (rx strm) else [])
    \<and> tx (snd (StartServerForwarding r l arriving strm))
        = tx strm @ (if r \<and> l then map (take 32768) arriving else [])
    \<and> closed (snd (StartServerForwarding r l arriving strm))
    \<and> snd (StartServerForwarding r l arriving strm) = snd (StartClientForwarding r l arriving strm)"
  using assms
  by (simp add: StartServerForwarding_def StartClientForwarding_def run_proxy_def
      stream_loop_connected stream_loop_unconnected socket_loop_bytes conn_close_def)

lemma udp_path_is_one_way_witness:
  "fst (StartServerForwarding True True [] (new_conn [Seg [1, 2]] 1)) = []
   \<and> fst (StartClientForwarding True True [] (new_conn [Seg [1, 2]] 1)) = [[1, 2]]"
  using udp_path_is_one_way [of "new_conn [Seg [1, 2]] 1" "[]" True True]
  by (simp add: new_conn_def udp_datagrams.simps)

end
