(* ===== verification/Pipe.thy ===== *)
theory Pipe
  imports Forwarding
begin

text \<open>
  Joining two connections (\<^verbatim>\<open>pkg/tunnel/mux.go\<close>, \<open>Pipe\<close>): one goroutine copies each way, and when the
  first of them ends both connections are closed. A schedule says which goroutine makes its next
  round of reading and writing; \<open>True\<close> is the one that copies from \<open>dst\<close> to \<open>src\<close>.
\<close>

text \<open>One round of \<^verbatim>\<open>io.Copy\<close>: whether the copying ends with it.\<close>

definition copy_round :: "conn \<Rightarrow> conn \<Rightarrow> bool \<times> conn \<times> conn" where
  "copy_round to from =
     (case conn_read 32768 from of
        ((buf, err), from) \<Rightarrow>
          if buf = [] then (err, to, from)
          else (case conn_write buf to of
                  (False, to) \<Rightarrow> (True, to, from)
                | (True, to) \<Rightarrow> (err, to, from)))"

text \<open>None: neither goroutine has ended yet.\<close>

fun Pipe :: "bool list \<Rightarrow> conn \<Rightarrow> conn \<Rightarrow> (conn \<times> conn) option" where
  "Pipe [] src dst = None"
| "Pipe (True # sched) src dst =
     (case copy_round src dst of
        (True, src, dst) \<Rightarrow> Some (conn_close src, conn_close dst)
      | (False, src, dst) \<Rightarrow> Pipe sched src dst)"
| "Pipe (False # sched) src dst =
     (case copy_round dst src of
        (True, dst, src) \<Rightarrow> Some (conn_close src, conn_close dst)
      | (False, dst, src) \<Rightarrow> Pipe sched src dst)"

text \<open>What a connection has still to deliver, as a measure.\<close>

definition pending :: "conn \<Rightarrow> nat" where
  "pending c = length (rx c) + length (stream (rx c))"

lemma copy_round_spec:
  assumes "copy_round to from = (fin, to', from')"
  shows "rx to' = rx to" and "tx from' = tx from" and "closed to' = closed to" "closed from' = closed from"
    and "wleft from' = wleft from"
    and "\<not> fin \<Longrightarrow> pending from' < pending from"
    and "\<exists>w lost. stream (rx from) = w @ lost @ stream (rx from') \<and> concat (tx to') = concat (tx to) @ w
          \<and> (\<not> fin \<longrightarrow> lost = [])"
proof -
  obtain buf err r where rd: "ev_read 32768 (rx from) = ((buf, err), r)" by (metis surj_pair)
  have pre: "stream (rx from) = buf @ stream r"
    using rd by (cases "(32768 :: nat, rx from)" rule: ev_read.cases) (auto split: if_splits)
  have less: "\<not> err \<Longrightarrow> length r + length (stream r) < pending from"
    using ev_read_smaller [of 32768 "rx from" buf r] rd by (simp add: pending_def)
  show "rx to' = rx to" "tx from' = tx from" "closed to' = closed to" "closed from' = closed from"
    "wleft from' = wleft from"
    using assms rd by (auto simp: copy_round_def conn_read_def conn_write_def split: if_splits)
  show "\<not> fin \<Longrightarrow> pending from' < pending from"
    using assms rd less by (auto simp: copy_round_def conn_read_def conn_write_def pending_def split: if_splits)
  show "\<exists>w lost. stream (rx from) = w @ lost @ stream (rx from') \<and> concat (tx to') = concat (tx to) @ w
      \<and> (\<not> fin \<longrightarrow> lost = [])"
  proof (cases "closed from \<or> buf = []")
    case True
    with assms rd pre show ?thesis
      by (intro exI [of _ "[]"]) (auto simp: copy_round_def conn_read_def split: if_splits)
  next
    case False
    then have "(fin, to', from') = (if closed to \<or> wleft to = 0 then (True, to, from\<lparr>rx := r\<rparr>)
        else (err, to\<lparr>tx := tx to @ [buf], wleft := wleft to - 1\<rparr>, from\<lparr>rx := r\<rparr>))"
      using assms rd by (auto simp: copy_round_def conn_read_def conn_write_def split: if_splits)
    then consider "fin" "to' = to" "from' = from\<lparr>rx := r\<rparr>"
      | "to' = to\<lparr>tx := tx to @ [buf], wleft := wleft to - 1\<rparr>" "from' = from\<lparr>rx := r\<rparr>"
      by (auto split: if_splits)
    then show ?thesis
    proof cases
      case 1
      then show ?thesis using pre by (intro exI [of _ "[]"] exI [of _ buf]) simp
    next
      case 2
      then show ?thesis using pre by (intro exI [of _ buf] exI [of _ "[]"]) simp
    qed
  qed
qed

lemma pending_cong: "rx c = rx d \<Longrightarrow> pending c = pending d"
  by (simp add: pending_def)

lemma pipe_returns:
  "pending src + pending dst < length sched \<Longrightarrow> Pipe sched src dst \<noteq> None"
proof (induction sched src dst rule: Pipe.induct)
  case (2 sched src dst)
  obtain fin s' d' where r: "copy_round src dst = (fin, s', d')" by (metis surj_pair)
  show ?case
  proof (cases fin)
    case False
    have "pending s' + pending d' < length sched"
      using copy_round_spec(6) [OF r False] pending_cong [OF copy_round_spec(1) [OF r]] "2.prems"
      by simp
    with 2 r False show ?thesis by simp
  qed (simp add: r)
next
  case (3 sched src dst)
  obtain fin s' d' where r: "copy_round dst src = (fin, d', s')" by (metis surj_pair)
  show ?case
  proof (cases fin)
    case False
    have "pending s' + pending d' < length sched"
      using copy_round_spec(6) [OF r False] pending_cong [OF copy_round_spec(1) [OF r]] "3.prems"
      by simp
    with 3 r False show ?thesis by simp
  qed (simp add: r)
qed simp

text \<open>What one connection got of the other's stream, over the whole run.\<close>

definition got_prefix :: "conn \<Rightarrow> conn \<Rightarrow> conn \<Rightarrow> bool" where
  "got_prefix to from to' \<longleftrightarrow>
     (\<exists>w. concat (tx to') = concat (tx to) @ w \<and> prefix w (stream (rx from)))"

lemma got_prefix_refl: "tx to' = tx to \<Longrightarrow> got_prefix to from to'"
  by (simp add: got_prefix_def)

lemma got_prefix_round:
  assumes "copy_round to from = (fin, to1, from1)"
  shows "got_prefix to from to1"
    and "\<not> fin \<Longrightarrow> got_prefix to1 from1 to' \<Longrightarrow> got_prefix to from to'"
proof -
  obtain w lost where w: "stream (rx from) = w @ lost @ stream (rx from1)"
    "concat (tx to1) = concat (tx to) @ w" "\<not> fin \<Longrightarrow> lost = []"
    using copy_round_spec(7) [OF assms] by blast
  then show "got_prefix to from to1" by (auto simp: got_prefix_def)
  assume "\<not> fin" and "got_prefix to1 from1 to'"
  then obtain v where "concat (tx to') = concat (tx to1) @ v" "prefix v (stream (rx from1))"
    by (auto simp: got_prefix_def)
  with w \<open>\<not> fin\<close> show "got_prefix to from to'"
    by (auto simp: got_prefix_def intro!: exI [of _ "w @ v"])
qed

lemma got_prefix_cong:
  "tx to1 = tx to \<Longrightarrow> rx from1 = rx from \<Longrightarrow> got_prefix to1 from1 to' \<longleftrightarrow> got_prefix to from to'"
  by (simp add: got_prefix_def)

lemma conn_close_frame [simp]: "tx (conn_close c) = tx c" "closed (conn_close c)"
  by (simp_all add: conn_close_def)

lemma pipe_relays:
  "Pipe sched src dst = Some (s', d') \<Longrightarrow>
     closed s' \<and> closed d' \<and> got_prefix src dst s' \<and> got_prefix dst src d'"
proof (induction sched src dst rule: Pipe.induct)
  case (2 sched src dst)
  obtain fin s1 d1 where r: "copy_round src dst = (fin, s1, d1)" by (metis surj_pair)
  note f = copy_round_spec(1,2) [OF r]
  show ?case
  proof (cases fin)
    case True
    with 2 r have "s' = conn_close s1" "d' = conn_close d1" by auto
    with got_prefix_round(1) [OF r] f show ?thesis by (simp add: got_prefix_def)
  next
    case False
    with 2 r have "closed s' \<and> closed d' \<and> got_prefix s1 d1 s' \<and> got_prefix d1 s1 d'" by simp
    with got_prefix_round(2) [OF r False] got_prefix_cong [of d1 dst s1 src] f show ?thesis by blast
  qed
next
  case (3 sched src dst)
  obtain fin s1 d1 where r: "copy_round dst src = (fin, d1, s1)" by (metis surj_pair)
  note f = copy_round_spec(1,2) [OF r]
  show ?case
  proof (cases fin)
    case True
    with 3 r have "s' = conn_close s1" "d' = conn_close d1" by auto
    with got_prefix_round(1) [OF r] f show ?thesis by (simp add: got_prefix_def)
  next
    case False
    with 3 r have "closed s' \<and> closed d' \<and> got_prefix s1 d1 s' \<and> got_prefix d1 s1 d'" by simp
    with got_prefix_round(2) [OF r False] got_prefix_cong [of s1 src d1 dst] f show ?thesis by blast
  qed
qed simp

subsection \<open>Properties\<close>

text \<open>
  C40. \<open>Pipe\<close> returns under every schedule that gives its goroutines enough rounds. When it returns, both
  connections are closed, and each has got a beginning of what the other delivered, unchanged and
  in order. It need not be all: the end of one direction cuts off the other.
\<close>

theorem pipe_returns_and_relays:
  "(Pipe sched src dst = None \<longrightarrow> length sched \<le> pending src + pending dst)
   \<and> (case Pipe sched src dst of
        None \<Rightarrow> True
      | Some (src', dst') \<Rightarrow> closed src' \<and> closed dst'
          \<and> (\<exists>w. concat (tx src') = concat (tx src) @ w \<and> prefix w (stream (rx dst)))
          \<and> (\<exists>w. concat (tx dst') = concat (tx dst) @ w \<and> prefix w (stream (rx src))))"
proof (cases "Pipe sched src dst")
  case None
  then have "length sched \<le> pending src + pending dst"
    using pipe_returns [of src dst sched] by (metis not_le)
  with None show ?thesis by simp
next
  case (Some p)
  obtain s' d' where p: "p = (s', d')" by (cases p)
  have "closed s' \<and> closed d' \<and> got_prefix src dst s' \<and> got_prefix dst src d'"
    using pipe_relays Some p by blast
  with Some p show ?thesis by (simp only: got_prefix_def option.simps prod.simps simp_thms)
qed

lemma pipe_returns_and_relays_witness:
  "\<exists>src' dst'. Pipe [True, False, False] (new_conn [Seg [1]] 9) (new_conn [Seg [2], Seg [3]] 9)
     = Some (src', dst') \<and> closed src' \<and> concat (tx dst') = [1] \<and> concat (tx src') = [2]"
proof -
  have "Pipe [True, False, False] (new_conn [Seg [1]] 9) (new_conn [Seg [2], Seg [3]] 9)
    = Some (\<lparr>rx = [], tx = [[2]], wleft = 8, closed = True\<rparr>,
            \<lparr>rx = [Seg [3]], tx = [[1]], wleft = 8, closed = True\<rparr>)"
    by (simp add: copy_round_def conn_read_def new_conn_def conn_close_def)
  with pipe_returns_and_relays [of "[True, False, False]" "new_conn [Seg [1]] 9"
      "new_conn [Seg [2], Seg [3]] 9"]
  show ?thesis by simp
qed

end
