(* ===== verification/Tls_Config.thy ===== *)
theory Tls_Config
  imports Config
begin

text \<open>
  Transport security: the two configuration builders and the bounded handshake of
  \<^verbatim>\<open>pkg/protocol/tls.go\<close>, \<open>buildTLSConfig\<close> and the choice of transport of \<^verbatim>\<open>pkg/client/client.go\<close>, and
  the control listener that \<open>Start\<close> opens in \<^verbatim>\<open>pkg/server/server.go\<close>. The file system and the parsing
  of key material are a value of type \<open>'c tls_files\<close>: what a file holds, which key pair two files
  give, and the certificates in a PEM text.
\<close>

record 'c tls_files =
  ReadFile :: "string \<Rightarrow> bytes option"
  LoadX509KeyPair :: "string \<Rightarrow> string \<Rightarrow> 'c option"
  pem_certs :: "bytes \<Rightarrow> 'c list"

text \<open>A nil pool is None; \<open>MinVersion\<close> 0 is the library's default.\<close>

record 'c tls_config =
  Certificates :: "'c list"
  MinVersion :: int
  CipherSuites :: "int list"
  InsecureSkipVerify :: bool
  RootCAs :: "'c list option"
  ClientCAs :: "'c list option"
  RequireAndVerifyClientCert :: bool

definition empty_tls :: "'c tls_config" where
  "empty_tls = \<lparr>Certificates = [], MinVersion = 0, CipherSuites = [], InsecureSkipVerify = False,
     RootCAs = None, ClientCAs = None, RequireAndVerifyClientCert = False\<rparr>"

definition VersionTLS12 :: int where
  "VersionTLS12 = 0x0303"

text \<open>The identifiers of the six ECDHE suites with AES-GCM or ChaCha20-Poly1305.\<close>

definition SecureCipherSuites :: "int list" where
  "SecureCipherSuites = [0xC02B, 0xC02F, 0xC02C, 0xC030, 0xCCA9, 0xCCA8]"

datatype tls_error = KeyPairFailed | CAUnreadable | CAUnparsable

text \<open>\<^verbatim>\<open>AppendCertsFromPEM\<close> adds what it finds and reports whether it found anything.\<close>

definition AppendCertsFromPEM :: "'c tls_files \<Rightarrow> bytes \<Rightarrow> bool \<times> 'c list" where
  "AppendCertsFromPEM fs pem = (pem_certs fs pem \<noteq> [], pem_certs fs pem)"

definition GetServerTLSConfig ::
    "'c tls_files \<Rightarrow> string \<Rightarrow> string \<Rightarrow> string \<Rightarrow> tls_error + 'c tls_config" where
  "GetServerTLSConfig fs certFile keyFile caFile =
     (case LoadX509KeyPair fs certFile keyFile of
        None \<Rightarrow> Inl KeyPairFailed
      | Some cert \<Rightarrow>
        let tlsConfig = empty_tls\<lparr>Certificates := [cert], MinVersion := VersionTLS12,
                                  CipherSuites := SecureCipherSuites\<rparr>
        in if caFile = [] then Inr tlsConfig
           else (case ReadFile fs caFile of
                   None \<Rightarrow> Inl CAUnreadable
                 | Some caCert \<Rightarrow>
                   (case AppendCertsFromPEM fs caCert of
                      (False, _) \<Rightarrow> Inl CAUnparsable
                    | (True, pool) \<Rightarrow>
                        Inr (tlsConfig\<lparr>ClientCAs := Some pool, RequireAndVerifyClientCert := True\<rparr>))))"

definition with_client_pair ::
    "'c tls_files \<Rightarrow> string \<Rightarrow> string \<Rightarrow> 'c tls_config \<Rightarrow> tls_error + 'c tls_config" where
  "with_client_pair fs certFile keyFile tlsConfig =
     (if certFile \<noteq> [] \<and> keyFile \<noteq> [] then
        (case LoadX509KeyPair fs certFile keyFile of
           None \<Rightarrow> Inl KeyPairFailed
         | Some cert \<Rightarrow> Inr (tlsConfig\<lparr>Certificates := [cert]\<rparr>))
      else Inr tlsConfig)"

definition GetClientTLSConfig ::
    "'c tls_files \<Rightarrow> string \<Rightarrow> string \<Rightarrow> string \<Rightarrow> bool \<Rightarrow> tls_error + 'c tls_config" where
  "GetClientTLSConfig fs caFile certFile keyFile insecureSkipVerify =
     (let tlsConfig = empty_tls\<lparr>MinVersion := VersionTLS12, CipherSuites := SecureCipherSuites,
                                InsecureSkipVerify := insecureSkipVerify\<rparr>
      in if caFile = [] then with_client_pair fs certFile keyFile tlsConfig
         else (case ReadFile fs caFile of
                 None \<Rightarrow> Inl CAUnreadable
               | Some caCert \<Rightarrow>
                 (case AppendCertsFromPEM fs caCert of
                    (False, _) \<Rightarrow> Inl CAUnparsable
                  | (True, pool) \<Rightarrow>
                      with_client_pair fs certFile keyFile (tlsConfig\<lparr>RootCAs := Some pool\<rparr>))))"

text \<open>The builder the client really uses: the result of \<^verbatim>\<open>AppendCertsFromPEM\<close> is dropped.\<close>

definition buildTLSConfig :: "'c tls_files \<Rightarrow> ClientConfig \<Rightarrow> tls_error + 'c tls_config" where
  "buildTLSConfig fs cfg =
     (let tlsConfig = empty_tls\<lparr>InsecureSkipVerify := TLSInsecureSkipVerify cfg\<rparr>
      in if TLSCACertFile cfg = []
         then with_client_pair fs (c_TLSCertFile cfg) (c_TLSKeyFile cfg) tlsConfig
         else (case ReadFile fs (TLSCACertFile cfg) of
                 None \<Rightarrow> Inl CAUnreadable
               | Some caCert \<Rightarrow>
                   with_client_pair fs (c_TLSCertFile cfg) (c_TLSKeyFile cfg)
                     (tlsConfig\<lparr>RootCAs := Some (snd (AppendCertsFromPEM fs caCert))\<rparr>)))"

subsection \<open>The handshake with a time limit\<close>

text \<open>
  \<open>ServerHandshakeWithTimeout\<close> on the answers of its four calls: whether a connection is returned,
  and which of the raw and the TLS connection it has closed.
\<close>

definition ServerHandshakeWithTimeout :: "bool \<Rightarrow> bool \<Rightarrow> bool \<Rightarrow> bool \<times> bool \<times> bool" where
  "ServerHandshakeWithTimeout deadline_ok handshake_ok reset_ok =
     (if \<not> deadline_ok then (False, False, False)
      else if \<not> handshake_ok then (False, True, False)
      else if \<not> reset_ok then (False, False, True)
      else (True, False, False))"

subsection \<open>The transports of the two programs\<close>

datatype transport = RawTCP | TLSFiles | AutoTLS

datatype start_outcome = KeyPairError | BindError | NilListenerPanic | Accepting transport

text \<open>
  \<open>Start\<close> up to its accept loop; \<open>bind\<close> tells whether the listen call succeeds. In the first branch
  \<^verbatim>\<open>cert, err :=\<close> declares a new \<^verbatim>\<open>err\<close>, so a failing \<^verbatim>\<open>tls.Listen\<close> leaves the outer one nil and the
  listener nil.
\<close>

definition Start :: "'c tls_files \<Rightarrow> ServerConfig \<Rightarrow> (transport \<Rightarrow> bool) \<Rightarrow> start_outcome" where
  "Start fs cfg bind =
     (if TLSCertFile cfg \<noteq> [] \<and> TLSKeyFile cfg \<noteq> [] then
        (case LoadX509KeyPair fs (TLSCertFile cfg) (TLSKeyFile cfg) of
           None \<Rightarrow> KeyPairError
         | Some cert \<Rightarrow> if bind TLSFiles then Accepting TLSFiles else NilListenerPanic)
      else if AutoTLSDomain cfg \<noteq> [] then (if bind AutoTLS then Accepting AutoTLS else BindError)
      else (if bind RawTCP then Accepting RawTCP else BindError))"

text \<open>The dialling part of \<open>connectAndServe\<close>: None for TCP without TLS.\<close>

definition client_dial ::
    "'c tls_files \<Rightarrow> ClientConfig \<Rightarrow> tls_error + 'c tls_config option" where
  "client_dial fs cfg =
     (if TLSCACertFile cfg \<noteq> [] \<or> c_TLSCertFile cfg \<noteq> []
      then (case buildTLSConfig fs cfg of Inl e \<Rightarrow> Inl e | Inr tls \<Rightarrow> Inr (Some tls))
      else Inr None)"

subsection \<open>Properties\<close>

text \<open>
  A server configuration that is built never goes below TLS 1.2 and the six forward-secret suites, and
  has the key pair of the two files. When a CA file is named, it demands client certificates,
  verified against a pool that is not empty; a CA file that cannot be read or holds no certificate
  is an error and never a weaker configuration.
\<close>

theorem server_tls_config_is_strict:
  "case GetServerTLSConfig fs certFile keyFile caFile of
     Inr t \<Rightarrow> MinVersion t = VersionTLS12 \<and> CipherSuites t = SecureCipherSuites
       \<and> Some (Certificates t) = map_option (\<lambda>c. [c]) (LoadX509KeyPair fs certFile keyFile)
       \<and> \<not> InsecureSkipVerify t
       \<and> (if caFile = [] then ClientCAs t = None \<and> \<not> RequireAndVerifyClientCert t
          else RequireAndVerifyClientCert t
            \<and> (\<exists>pem. ReadFile fs caFile = Some pem \<and> ClientCAs t = Some (pem_certs fs pem)
                  \<and> pem_certs fs pem \<noteq> []))
   | Inl e \<Rightarrow> e = (if LoadX509KeyPair fs certFile keyFile = None then KeyPairFailed
                   else if ReadFile fs caFile = None then CAUnreadable else CAUnparsable)"
  by (auto simp: GetServerTLSConfig_def empty_tls_def AppendCertsFromPEM_def Let_def
      split: option.split prod.split bool.split)

text \<open>
  The builder of the client is the strict one without its floor: whenever \<open>GetClientTLSConfig\<close> gives
  a configuration, \<open>buildTLSConfig\<close> gives the same one but for the version and the suites. The two
  differ in their verdict exactly when the CA file is readable and holds no certificate, where the
  client goes on with an empty pool, which no certificate chains to.
\<close>

theorem client_builders_compared:
  defines "strict \<equiv> (\<lambda>fs cfg. GetClientTLSConfig fs (TLSCACertFile cfg) (c_TLSCertFile cfg)
      (c_TLSKeyFile cfg) (TLSInsecureSkipVerify cfg))"
  shows "(case strict fs cfg of
      Inr t \<Rightarrow> buildTLSConfig fs cfg = Inr (t\<lparr>MinVersion := 0, CipherSuites := []\<rparr>)
        \<and> MinVersion t = VersionTLS12 \<and> CipherSuites t = SecureCipherSuites
        \<and> RootCAs t \<noteq> Some []
    | Inl e \<Rightarrow> e \<noteq> CAUnparsable \<and> buildTLSConfig fs cfg = Inl e
        \<or> e = CAUnparsable \<and> TLSCACertFile cfg \<noteq> []
          \<and> (\<exists>pem. ReadFile fs (TLSCACertFile cfg) = Some pem \<and> pem_certs fs pem = [])
          \<and> (case buildTLSConfig fs cfg of
               Inr t \<Rightarrow> RootCAs t = Some [] | Inl e' \<Rightarrow> e' = KeyPairFailed))"
  unfolding strict_def
  by (auto simp: GetClientTLSConfig_def buildTLSConfig_def with_client_pair_def empty_tls_def
      AppendCertsFromPEM_def Let_def split: option.split prod.split bool.split sum.split if_splits)

text \<open>
  \<open>Start\<close> reports a failure to listen as an error unless the key pair comes from files: there the error
  is lost and the program panics on the nil listener. It accepts exactly when the key pair, if it
  is asked for, loads and the address can be bound, and it speaks TLS exactly when both files or
  a domain are configured.
\<close>

theorem start_outcomes:
  defines "files \<equiv> (\<lambda>cfg. TLSCertFile cfg \<noteq> [] \<and> TLSKeyFile cfg \<noteq> [])"
  defines "tr \<equiv> (\<lambda>cfg. if files cfg then TLSFiles else if AutoTLSDomain cfg \<noteq> [] then AutoTLS else RawTCP)"
  defines "pair \<equiv> (\<lambda>fs cfg. LoadX509KeyPair fs (TLSCertFile cfg) (TLSKeyFile cfg))"
  shows "Start fs cfg bind =
    (if files cfg \<and> pair fs cfg = None then KeyPairError
     else if bind (tr cfg) then Accepting (tr cfg)
     else if files cfg then NilListenerPanic else BindError)
   \<and> (Start fs cfg bind = Accepting t \<longrightarrow>
        (t = RawTCP \<longleftrightarrow> \<not> files cfg \<and> AutoTLSDomain cfg = []))"
  unfolding files_def tr_def pair_def by (auto simp: Start_def split: option.split)

lemma start_outcomes_witness:
  "Start \<lparr>ReadFile = \<lambda>_. None, LoadX509KeyPair = \<lambda>_ _. Some (0 :: nat), pem_certs = \<lambda>_. []\<rparr>
     (zero_server\<lparr>TLSCertFile := ''c'', TLSKeyFile := ''k''\<rparr>) (\<lambda>_. False) = NilListenerPanic"
  using start_outcomes [of "\<lparr>ReadFile = \<lambda>_. None, LoadX509KeyPair = \<lambda>_ _. Some (0 :: nat), pem_certs = \<lambda>_. []\<rparr>"
      "zero_server\<lparr>TLSCertFile := ''c'', TLSKeyFile := ''k''\<rparr>" "\<lambda>_. False" RawTCP]
  by simp

text \<open>
  The two programs do not choose the transport by the same settings: a client that sets only
  \<^verbatim>\<open>tls_insecure_skip_verify\<close> dials without TLS, and then the nonce, the MAC and all traffic go in
  the clear; and it dials with TLS as soon as it names a CA or a certificate, whatever the server's
  transport is.
\<close>

theorem client_transport:
  "(client_dial fs cfg = Inr None \<longleftrightarrow> TLSCACertFile cfg = [] \<and> c_TLSCertFile cfg = [])
   \<and> (case client_dial fs cfg of
        Inr (Some t) \<Rightarrow> buildTLSConfig fs cfg = Inr t \<and> InsecureSkipVerify t = TLSInsecureSkipVerify cfg
      | Inr None \<Rightarrow> True
      | Inl e \<Rightarrow> buildTLSConfig fs cfg = Inl e)"
  by (auto simp: client_dial_def buildTLSConfig_def with_client_pair_def empty_tls_def Let_def
      split: option.splits sum.splits if_splits)

end
