(* ===== verification/Client_Loop.thy ===== *)
theory Client_Loop
  imports Control_Auth Tls_Config Forwarding
begin

text \<open>
  The tunnel client (\<^verbatim>\<open>pkg/client/client.go\<close>): its reconnect loop \<open>Start\<close>, one session in
  \<open>connectAndServe\<close>, \<open>Stop\<close>, which another goroutine may call at any moment, and the counters.
  The multiplexer's sessions are objects shared by \<open>Start\<close> and \<open>Stop\<close>, so they live in a heap; the
  place where the loop stands is a part of the state.
\<close>

datatype client_pc =
  Checking
  | Dialling
  | Authenticating nat
  | Serving nat
  | Failed
  | Sleeping
  | Returned

record Client =
  conf :: ClientConfig
  closed_sessions :: "bool list"
  session :: "nat option"
  reconnectAttempts :: "64 word"
  c_bytesTx :: "64 word"
  c_bytesRx :: "64 word"
  activeStreams :: "32 word"
  isShutdown :: bool
  pc :: client_pc
  handlers :: nat

definition NewClient :: "ClientConfig \<Rightarrow> Client" where
  "NewClient c = \<lparr>conf = c, closed_sessions = [], session = None, reconnectAttempts = 0,
     c_bytesTx = 0, c_bytesRx = 0, activeStreams = 0, isShutdown = False, pc = Checking,
     handlers = 0\<rparr>"

subsection \<open>The sections of the code\<close>

definition close_at :: "nat \<Rightarrow> bool list \<Rightarrow> bool list" where
  "close_at k cs = cs[k := True]"

definition Stop :: "Client \<Rightarrow> Client" where
  "Stop c =
     (let c = c\<lparr>isShutdown := True\<rparr>
      in case session c of
           None \<Rightarrow> c
         | Some k \<Rightarrow> c\<lparr>closed_sessions := close_at k (closed_sessions c)\<rparr>)"

text \<open>A new session is stored under the mutex.\<close>

definition store_session :: "Client \<Rightarrow> Client" where
  "store_session c =
     c\<lparr>closed_sessions := closed_sessions c @ [False], session := Some (length (closed_sessions c)),
       pc := Authenticating (length (closed_sessions c))\<rparr>"

text \<open>The deferred function of \<open>connectAndServe\<close>.\<close>

definition drop_session :: "nat \<Rightarrow> Client \<Rightarrow> Client" where
  "drop_session k c =
     c\<lparr>session := (if session c = Some k then None else session c),
       closed_sessions := close_at k (closed_sessions c), pc := Failed\<rparr>"

text \<open>
  The authentication section: on the stream that \<^verbatim>\<open>OpenStream\<close> gives (None for an error) the MAC is
  sent, and with no error of the stream the attempt counter is reset.
\<close>

definition authenticate :: "nat \<Rightarrow> conn option \<Rightarrow> Client \<Rightarrow> Client" where
  "authenticate k strm c =
     (case strm of
        None \<Rightarrow> drop_session k c
      | Some s \<Rightarrow>
        (case fst (performHMACAuth (conf c) s) of
           Some e \<Rightarrow> drop_session k c
         | None \<Rightarrow> c\<lparr>reconnectAttempts := 0, pc := Serving k\<rparr>))"

text \<open>The loop of \<open>Start\<close> after an error of \<open>connectAndServe\<close>, which never returns without one.\<close>

definition count_failure :: "Client \<Rightarrow> Client" where
  "count_failure c = c\<lparr>reconnectAttempts := reconnectAttempts c + 1, pc := Sleeping\<rparr>"

definition stream_begins :: "Client \<Rightarrow> Client" where
  "stream_begins c = c\<lparr>activeStreams := activeStreams c + 1, handlers := handlers c + 1\<rparr>"

definition stream_ends :: "nat \<Rightarrow> nat \<Rightarrow> Client \<Rightarrow> Client" where
  "stream_ends nrx ntx c =
     c\<lparr>c_bytesRx := c_bytesRx c + of_nat nrx, c_bytesTx := c_bytesTx c + of_nat ntx,
       activeStreams := activeStreams c - 1, handlers := handlers c - 1\<rparr>"

definition GetStats :: "Client \<Rightarrow> (string \<times> json) list" where
  "GetStats c =
     [(''client_id'', JStr (c_ClientID (conf c))),
      (''reconnect_attempts'', JInt (uint (reconnectAttempts c))),
      (''active_streams'', JInt (sint (activeStreams c))),
      (''bytes_tx'', JInt (uint (c_bytesTx c))),
      (''bytes_rx'', JInt (uint (c_bytesRx c)))]"

inductive client_step :: "Client \<Rightarrow> Client \<Rightarrow> bool" where
  check: "pc c = Checking \<Longrightarrow>
    client_step c (c\<lparr>pc := (if isShutdown c then Returned else Dialling)\<rparr>)"
| no_connection: "pc c = Dialling \<Longrightarrow> client_step c (c\<lparr>pc := Failed\<rparr>)"
| connection: "pc c = Dialling \<Longrightarrow> client_step c (store_session c)"
| auth: "pc c = Authenticating k \<Longrightarrow> client_step c (authenticate k strm c)"
| lost: "pc c = Serving k \<Longrightarrow> closed_sessions c ! k \<Longrightarrow> client_step c (drop_session k c)"
| failure: "pc c = Failed \<Longrightarrow> client_step c (count_failure c)"
| awake: "pc c = Sleeping \<Longrightarrow> client_step c (c\<lparr>pc := Checking\<rparr>)"
| peer_closes: "k < length (closed_sessions c) \<Longrightarrow>
    client_step c (c\<lparr>closed_sessions := close_at k (closed_sessions c)\<rparr>)"
| stop: "client_step c (Stop c)"
| stream_in: "pc c = Serving k \<Longrightarrow> \<not> closed_sessions c ! k \<Longrightarrow> client_step c (stream_begins c)"
| stream_out: "0 < handlers c \<Longrightarrow> client_step c (stream_ends nrx ntx c)"

definition client_reachable :: "ClientConfig \<Rightarrow> Client \<Rightarrow> bool" where
  "client_reachable g c \<longleftrightarrow> client_step\<^sup>*\<^sup>* (NewClient g) c"

subsection \<open>The invariant\<close>

fun pc_session :: "client_pc \<Rightarrow> nat option" where
  "pc_session (Authenticating k) = Some k"
| "pc_session (Serving k) = Some k"
| "pc_session _ = None"

definition client_inv :: "Client \<Rightarrow> bool" where
  "client_inv c \<longleftrightarrow> session c = pc_session (pc c)
     \<and> (\<forall>k < length (closed_sessions c). \<not> closed_sessions c ! k \<longrightarrow> session c = Some k)
     \<and> (\<forall>k. session c = Some k \<longrightarrow> k < length (closed_sessions c))
     \<and> activeStreams c = of_nat (handlers c)
     \<and> (pc c = Returned \<longrightarrow> isShutdown c)"

lemma authenticate_cases:
  "authenticate k strm c = drop_session k c
     \<or> authenticate k strm c = c\<lparr>reconnectAttempts := 0, pc := Serving k\<rparr>"
  by (auto simp: authenticate_def split: option.split)

lemma close_at_simps [simp]:
  "length (close_at k cs) = length cs"
  "j < length cs \<Longrightarrow> close_at k cs ! j \<longleftrightarrow> j = k \<or> cs ! j"
  by (cases "k < length cs"; auto simp: close_at_def nth_list_update list_update_beyond)+

lemma drop_session_inv:
  assumes inv: "client_inv c" and k: "pc_session (pc c) = Some k"
  shows "client_inv (drop_session k c)"
proof -
  have s: "session c = Some k" using inv k by (simp add: client_inv_def)
  have "closed_sessions c ! j" if "j < length (closed_sessions c)" "j \<noteq> k" for j
    using inv s that by (auto simp: client_inv_def)
  with inv s show ?thesis by (auto simp: client_inv_def drop_session_def)
qed

lemma client_inv_frame:
  assumes "client_inv c" and "session d = session c" and "pc_session (pc d) = pc_session (pc c)"
    and "length (closed_sessions d) = length (closed_sessions c)"
    and "\<And>k. k < length (closed_sessions c) \<Longrightarrow> closed_sessions c ! k \<Longrightarrow> closed_sessions d ! k"
    and "activeStreams d = of_nat (handlers d)" and "pc d = Returned \<Longrightarrow> isShutdown d"
  shows "client_inv d"
  using assms unfolding client_inv_def by metis

lemma client_streams: "client_inv c \<Longrightarrow> activeStreams c = of_nat (handlers c)"
  by (simp add: client_inv_def)

lemma client_inv_step:
  assumes "client_step c d" and inv: "client_inv c"
  shows "client_inv d"
  using assms(1)
proof (cases rule: client_step.cases)
  case (auth k strm)
  then have "pc_session (pc c) = Some k" by simp
  note drop = drop_session_inv [OF inv this]
  have s: "session c = Some k" using auth inv by (simp add: client_inv_def)
  from authenticate_cases [of k strm c] show ?thesis
  proof
    assume "authenticate k strm c = drop_session k c"
    with auth drop show ?thesis by simp
  next
    assume "authenticate k strm c = c\<lparr>reconnectAttempts := 0, pc := Serving k\<rparr>"
    with auth inv s show ?thesis by (simp add: client_inv_def)
  qed
next
  case (lost k)
  then have "pc_session (pc c) = Some k" by simp
  with lost drop_session_inv [OF inv this] show ?thesis by simp
next
  case connection
  then have "session c = None" using inv by (simp add: client_inv_def)
  then have "closed_sessions c ! j" if "j < length (closed_sessions c)" for j
    using inv that by (auto simp: client_inv_def)
  with connection inv show ?thesis
    by (simp add: client_inv_def store_session_def nth_append less_Suc_eq)
next
  case stop
  then show ?thesis using inv
    by (intro client_inv_frame [OF inv])
      (auto simp: Stop_def Let_def client_inv_def split: option.split)
next
  case check
  then show ?thesis using client_streams [OF inv]
    by (intro client_inv_frame [OF inv]) (simp_all split: if_splits)
next
  case (stream_out nrx ntx)
  then obtain m where "handlers c = Suc m" by (cases "handlers c") auto
  with stream_out client_streams [OF inv] inv show ?thesis
    by (intro client_inv_frame [OF inv]) (auto simp: stream_ends_def client_inv_def)
qed (rule client_inv_frame [OF inv]; use inv in \<open>simp add: client_inv_def count_failure_def stream_begins_def\<close>)+

interpretation client: step_invariant client_step client_inv
  by unfold_locales (rule client_inv_step)

lemma client_inv_init: "client_inv (NewClient g)"
  by (simp add: client_inv_def NewClient_def)

lemma client_reachable_inv: "client_reachable g c \<Longrightarrow> client_inv c"
  unfolding client_reachable_def by (rule client.reachable [OF _ client_inv_init])

subsection \<open>After a stop\<close>

text \<open>How many moves of the loop are left once the shutdown flag is set.\<close>

fun rank :: "client_pc \<Rightarrow> nat" where
  "rank Dialling = 6"
| "rank (Authenticating _) = 5"
| "rank (Serving _) = 4"
| "rank Failed = 3"
| "rank Sleeping = 2"
| "rank Checking = 1"
| "rank Returned = 0"

inductive moves :: "nat \<Rightarrow> Client \<Rightarrow> Client \<Rightarrow> bool" where
  none: "moves 0 c c"
| move: "moves n c d \<Longrightarrow> client_step d e \<Longrightarrow> pc d \<noteq> pc e \<Longrightarrow> moves (Suc n) c e"
| other: "moves n c d \<Longrightarrow> client_step d e \<Longrightarrow> pc d = pc e \<Longrightarrow> moves n c e"

lemma Stop_frame [simp]:
  "pc (Stop c) = pc c" "isShutdown (Stop c)"
  "length (closed_sessions (Stop c)) = length (closed_sessions c)"
  by (simp_all add: Stop_def Let_def split: option.split)

lemma shutdown_step:
  assumes "client_step c d" and "isShutdown c"
  shows "isShutdown d \<and> rank (pc d) \<le> rank (pc c) \<and> (pc c \<noteq> pc d \<longrightarrow> rank (pc d) < rank (pc c))
    \<and> length (closed_sessions d) + (if pc d = Dialling then 1 else 0)
        \<le> length (closed_sessions c) + (if pc c = Dialling then 1 else 0)"
  using assms(1)
proof (cases rule: client_step.cases)
  case (auth k strm)
  with assms(2) authenticate_cases [of k strm c] show ?thesis by (auto simp: drop_session_def)
qed (use assms(2) in \<open>simp_all add: store_session_def drop_session_def count_failure_def
    stream_begins_def stream_ends_def\<close>)

lemma shutdown_moves:
  "moves n c d \<Longrightarrow> isShutdown c \<Longrightarrow>
     isShutdown d \<and> n + rank (pc d) \<le> rank (pc c)
     \<and> length (closed_sessions d) + (if pc d = Dialling then 1 else 0)
        \<le> length (closed_sessions c) + (if pc c = Dialling then 1 else 0)"
proof (induction rule: moves.induct)
  case (move n c d e)
  then show ?case using shutdown_step [of d e] by force
next
  case (other n c d e)
  then show ?case using shutdown_step [of d e] by force
qed simp

lemma loop_can_move:
  assumes "pc c \<noteq> Returned" and "\<And>k. pc c = Serving k \<Longrightarrow> closed_sessions c ! k"
  shows "\<exists>d. client_step c d \<and> pc c \<noteq> pc d"
proof (cases "pc c")
  case Checking
  from client_step.check [OF this] Checking show ?thesis
    by (intro exI conjI) (assumption, simp)
next
  case Dialling
  from client_step.no_connection [OF this] Dialling show ?thesis by (intro exI conjI) auto
next
  case (Authenticating k)
  from client_step.auth [OF this, of None] Authenticating show ?thesis
    by (intro exI conjI) (auto simp: authenticate_def drop_session_def)
next
  case (Serving k)
  from client_step.lost [OF this assms(2) [OF this]] Serving show ?thesis
    by (intro exI conjI) (auto simp: drop_session_def)
next
  case Failed
  from client_step.failure [OF this] Failed show ?thesis
    by (intro exI conjI) (auto simp: count_failure_def)
next
  case Sleeping
  from client_step.awake [OF this] Sleeping show ?thesis by (intro exI conjI) auto
qed (use assms in simp)

definition loop_move :: "Client \<Rightarrow> Client \<Rightarrow> bool" where
  "loop_move c d \<longleftrightarrow> client_step c d \<and> pc c \<noteq> pc d"

interpretation stopped: ranking loop_move isShutdown "\<lambda>c. rank (pc c)"
  by unfold_locales (use shutdown_step in \<open>auto simp: loop_move_def\<close>)

lemma hmac_auth_succeeds:
  assumes "length n = 32"
  shows "fst (performHMACAuth g (new_conn [Seg n] 1)) = None"
  using assms by (simp add: performHMACAuth_def read_full_def ev_read_full_Seg new_conn_def)

subsection \<open>Properties\<close>



text \<open>
  C21. After a stop the loop makes at most six moves, whatever else happens meanwhile, and opens at most one
  more session, and that only if it was dialling when the stop came. From every later state it can
  go on to the return of \<open>Start\<close>, or to a session that is still open; in no other place it waits.
\<close>

theorem stop_ends_the_loop:
  assumes "moves n (Stop c) d"
  shows "n + rank (pc d) \<le> rank (pc c) \<and> rank (pc c) \<le> 6
    \<and> length (closed_sessions d)
        \<le> length (closed_sessions c) + (if pc c = Dialling then 1 else 0)
    \<and> (\<exists>e. loop_move\<^sup>*\<^sup>* d e
          \<and> (pc e = Returned \<or> (\<exists>k. pc e = Serving k \<and> \<not> closed_sessions e ! k)))"
proof -
  have "rank (pc c) \<le> 6" by (cases "pc c") auto
  moreover have "isShutdown d" using shutdown_moves [OF assms] by simp
  from stopped.reaches_rest [OF this] obtain e where "loop_move\<^sup>*\<^sup>* d e" "\<forall>u. \<not> loop_move e u"
    by blast
  then have "loop_move\<^sup>*\<^sup>* d e
      \<and> (pc e = Returned \<or> (\<exists>k. pc e = Serving k \<and> \<not> closed_sessions e ! k))"
    using loop_can_move [of e] by (auto simp: loop_move_def)
  ultimately show ?thesis
    using shutdown_moves [OF assms] by (auto split: if_splits)
qed

lemma stop_ends_the_loop_witness:
  "moves 0 (Stop (NewClient zero_client)) (Stop (NewClient zero_client))
   \<and> (\<exists>e. loop_move\<^sup>*\<^sup>* (Stop (NewClient zero_client)) e
        \<and> (pc e = Returned \<or> (\<exists>k. pc e = Serving k \<and> \<not> closed_sessions e ! k)))
   \<and> (\<forall>d. \<not> moves 7 (Stop (NewClient zero_client)) d)"
  using stop_ends_the_loop [OF moves.none, of "NewClient zero_client"]
    stop_ends_the_loop [of 7 "NewClient zero_client"] moves.none
  by (fastforce simp: NewClient_def)


text \<open>
  C36. The counter of reconnection attempts does not count rejections. Once the reply is written the client
  sets it to zero, whatever the server's verdict is; so a client that is refused on every attempt
  reports attempt number one for ever.
\<close>

theorem rejected_attempts_are_not_counted:
  assumes "pc c = Authenticating k" and "clean (rx s)" and "32 \<le> length (stream (rx s))"
    and "\<not> closed s" and "0 < wleft s"
  shows "pc (authenticate k (Some s) c) = Serving k
    \<and> reconnectAttempts (count_failure (drop_session k (authenticate k (Some s) c))) = 1"
proof -
  obtain r where "read_full 32 s = (Some (take 32 (stream (rx s))), s\<lparr>rx := r\<rparr>)"
    using read_full_enough [OF assms(2,4,3)] by blast
  then have "fst (performHMACAuth (conf c) s) = None"
    using assms(4,5) by (simp add: performHMACAuth_def)
  then show ?thesis by (simp add: authenticate_def drop_session_def count_failure_def)
qed

lemma rejected_attempts_are_not_counted_witness:
  "reconnectAttempts (count_failure (drop_session 0 (authenticate 0
      (Some (new_conn [Seg (replicate 40 0)] 1))
      ((NewClient zero_client)\<lparr>pc := Authenticating 0, reconnectAttempts := 9\<rparr>)))) = 1"
proof -
  define n where "n = replicate 40 (0 :: byte)"
  have "length n = 40" by (simp add: n_def)
  then show ?thesis
    using rejected_attempts_are_not_counted
      [of "(NewClient zero_client)\<lparr>pc := Authenticating 0, reconnectAttempts := 9\<rparr>" 0 "new_conn [Seg n] 1"]
    by (simp add: new_conn_def n_def [symmetric])
qed

end
