(* ===== verification/Programs.thy ===== *)
theory Programs
  imports Tls_Config Client_Loop
begin

text \<open>
  The two programs (\<^verbatim>\<open>cmd/server/main.go\<close>, \<^verbatim>\<open>cmd/client/main.go\<close>): the configuration file is loaded, the
  engine is started in the background, and the process waits for a signal.
\<close>

datatype process_end = Exit int | Crash

definition config_path :: "string \<Rightarrow> string option \<Rightarrow> string" where
  "config_path fallback flag = (case flag of None \<Rightarrow> fallback | Some p \<Rightarrow> p)"

text \<open>
  How the server process ends by itself, or at once on a signal that is there before \<open>Start\<close> is done;
  None: it goes on until a signal comes, and then ends with status 0.
\<close>

definition server_main ::
    "(string \<Rightarrow> file_state) \<Rightarrow> (string \<Rightarrow> string) \<Rightarrow> string option \<Rightarrow> 'c tls_files
       \<Rightarrow> (transport \<Rightarrow> bool) \<Rightarrow> bool \<Rightarrow> process_end option" where
  "server_main fs env flag keys bind signalled =
     (case LoadServerConfig fs env (config_path ''server_config.json'' flag) of
        Inl e \<Rightarrow> Some (Exit 1)
      | Inr cfg \<Rightarrow>
        if signalled then Some (Exit 0)
        else (case Start keys cfg bind of
                KeyPairError \<Rightarrow> Some (Exit 1)
              | BindError \<Rightarrow> Some (Exit 1)
              | NilListenerPanic \<Rightarrow> Some Crash
              | Accepting t \<Rightarrow> None))"

text \<open>
  The client process, given where its loop is and whether a signal came: \<open>Start\<close> returns only nil, on
  which the background goroutine just ends.
\<close>

definition client_main ::
    "(string \<Rightarrow> file_state) \<Rightarrow> (string \<Rightarrow> string) \<Rightarrow> string option \<Rightarrow> bool
       \<Rightarrow> process_end option \<times> Client option" where
  "client_main fs env flag signalled =
     (case LoadClientConfig fs env (config_path ''client_config.json'' flag) of
        Inl e \<Rightarrow> (Some (Exit 1), None)
      | Inr g \<Rightarrow>
        if signalled then (Some (Exit 0), Some (Stop (NewClient g)))
        else (None, Some (NewClient g)))"

subsection \<open>Properties\<close>


end
