(* ===== verification/Two_Programs.thy ===== *)
theory Two_Programs
  imports Server_Lifecycle Client_Loop
begin

text \<open>
  The program as a whole: one server and any number of clients, each with its own configuration, on
  a network that carries the clients' replies to the server. The server's goroutines and the
  clients' loops interleave. A reply that was sent may reach any pending control connection, late,
  more than once or never; what the network does not do is to make up or to cut a reply.
\<close>

record tunnel =
  srv :: Server
  clis :: "Client list"
  wire :: "bytes list"

definition start_tunnel :: "ServerConfig \<Rightarrow> ClientConfig list \<Rightarrow> tunnel" where
  "start_tunnel cfg gs = \<lparr>srv = NewServer cfg, clis = map NewClient gs, wire = []\<rparr>"

text \<open>What a client writes to the stream of its authentication.\<close>

definition replies :: "ClientConfig \<Rightarrow> conn option \<Rightarrow> bytes list" where
  "replies g strm =
     (case strm of
        None \<Rightarrow> []
      | Some s \<Rightarrow> drop (length (tx s)) (tx (snd (performHMACAuth g s))))"

text \<open>What the server's \<^verbatim>\<open>Read\<close> can meet: an error, or a reply that some client has sent.\<close>

definition delivered :: "bytes list \<Rightarrow> conn option \<Rightarrow> bool" where
  "delivered w strm =
     (case strm of
        None \<Rightarrow> True
      | Some c \<Rightarrow> snd (fst (ev_read 512 (rx c)))
          \<or> list_ex (\<lambda>b. rx c \<noteq> [] \<and> hd (rx c) = Seg b) w)"

text \<open>
  The first rule is for the steps of the server that do not take a connection out of \<open>handshaking\<close>, the third
  for the steps of a client that do not end its authentication.
\<close>

inductive tunnel_step :: "tunnel \<Rightarrow> tunnel \<Rightarrow> bool" where
  server: "server_step c (srv y) s \<Longrightarrow> length (handshaking (srv y)) \<le> length (handshaking s) \<Longrightarrow>
    tunnel_step y (y\<lparr>srv := s\<rparr>)"
| login: "handshaking (srv y) = xs @ remote # ys \<Longrightarrow> delivered (wire y) strm \<Longrightarrow>
    tunnel_step y (y\<lparr>srv := (handleControlConn remote strm rnd ts now (srv y))\<lparr>handshaking := xs @ ys\<rparr>\<rparr>)"
| client: "k < length (clis y) \<Longrightarrow> client_step (clis y ! k) d \<Longrightarrow>
    pc d = pc (clis y ! k) \<or> (\<forall>j. pc (clis y ! k) \<noteq> Authenticating j) \<Longrightarrow>
    tunnel_step y (y\<lparr>clis := (clis y)[k := d]\<rparr>)"
| reply: "k < length (clis y) \<Longrightarrow> pc (clis y ! k) = Authenticating j \<Longrightarrow>
    tunnel_step y (y\<lparr>clis := (clis y)[k := authenticate j strm (clis y ! k)],
                     wire := wire y @ replies (conf (clis y ! k)) strm\<rparr>)"

subsection \<open>The invariant\<close>

text \<open>Nothing was ever registered, opened or reserved.\<close>

definition idle :: "Server \<Rightarrow> bool" where
  "idle s \<longleftrightarrow> sessions s = [] \<and> sockets s = [] \<and> clients s = [] \<and> listeners s = [] \<and> usedPorts s = []
     \<and> setups s = [] \<and> starting s = [] \<and> serving s = [] \<and> monitors s = [] \<and> proxying s = []"

definition short_id :: "ClientConfig \<Rightarrow> bool" where
  "short_id g \<longleftrightarrow> length (c_ClientID g) \<le> 447"

definition tunnel_inv :: "tunnel \<Rightarrow> bool" where
  "tunnel_inv y \<longleftrightarrow> idle (srv y) \<and> (\<forall>c \<in> set (clis y). short_id (conf c))
     \<and> (\<forall>b \<in> set (wire y). \<exists>g n. short_id g \<and> b = hmac_payload g n)"

lemma idle_accept: "idle s \<Longrightarrow> idle (acceptControl ip r now s)"
  by (simp add: idle_def acceptControl_def split: prod.split bool.split)

lemma idle_alert: "idle (sendWebhookAlert ts e d s) = idle s"
  by (simp add: idle_def)

lemma idle_step:
  assumes "server_step c s t" and "length (handshaking s) \<le> length (handshaking t)" and "idle s"
  shows "idle t"
  using assms(1)
proof (cases rule: server_step.cases)
  case (accept ip r now)
  with assms(3) show ?thesis by (simp add: idle_accept)
qed (use assms(2,3) in \<open>auto simp: idle_def\<close>)

lemma conf_step: "client_step c d \<Longrightarrow> conf d = conf c"
  by (cases rule: client_step.cases)
    (auto simp: Stop_def Let_def store_session_def drop_session_def authenticate_def count_failure_def
      stream_begins_def stream_ends_def split: option.splits)

lemma replies_payload: "b \<in> set (replies g strm) \<Longrightarrow> \<exists>n. b = hmac_payload g n"
proof (cases strm)
  case (Some s)
  assume b: "b \<in> set (replies g strm)"
  obtain e s' where p: "performHMACAuth g s = (e, s')" by (metis surj_pair)
  show ?thesis
  proof (cases e)
    case None
    with performed_payload [of g s s'] p b Some show ?thesis by (auto simp: replies_def)
  next
    case (Some e')
    with p have "tx s' = tx s"
      by (auto simp: performHMACAuth_def conn_write_def dest: read_full_tx
          split: prod.splits option.splits if_splits)
    with b p \<open>strm = Some s\<close> show ?thesis by (simp add: replies_def)
  qed
qed (simp add: replies_def)

lemma delivered_refused:
  assumes "delivered w (Some c)" and "\<forall>b \<in> set w. \<exists>g n. short_id g \<and> b = hmac_payload g n"
  shows "\<not> snd (fst (authenticateStream cfg rnd c))"
proof (cases rnd)
  case (Some nonce)
  show ?thesis
  proof (cases "closed c \<or> wleft c = 0")
    case False
    then have v: "fst (authenticateStream cfg (Some nonce) c) =
        (case ev_read 512 (rx c) of ((buf, err), _) \<Rightarrow>
           if err then ([], False) else control_verdict cfg nonce buf)"
      by (intro authenticate_verdict) auto
    from assms(1) consider "snd (fst (ev_read 512 (rx c)))"
      | b later where "b \<in> set w" "rx c = Seg b # later"
      by (auto simp: delivered_def list_ex_iff neq_Nil_conv)
    then show ?thesis
    proof cases
      case 1
      with v Some show ?thesis by (auto split: prod.splits)
    next
      case (2 b later)
      with assms(2) obtain g n where "length (c_ClientID g) \<le> 447" "b = hmac_payload g n"
        by (auto simp: short_id_def)
      with 2 v Some payload_refused [of cfg nonce g n] length_hmac_payload [of g n]
      show ?thesis by simp
    qed
  qed (use Some in \<open>auto simp: authenticateStream_def conn_write_def\<close>)
qed (simp add: authenticateStream_def)

lemma idle_login:
  assumes "delivered w strm" and "\<forall>b \<in> set w. \<exists>g n. short_id g \<and> b = hmac_payload g n" and "idle s"
  shows "idle ((handleControlConn remote strm rnd ts now s)\<lparr>handshaking := h\<rparr>)"
proof (cases strm)
  case (Some c)
  obtain i ok c' where a: "authenticateStream (config s) rnd c = ((i, ok), c')" by (metis surj_pair)
  with delivered_refused [of w c] assms(1,2) Some have "\<not> ok" by (metis fst_conv snd_conv)
  with a Some assms(3) show ?thesis by (simp add: handleControlConn_def idle_def)
qed (use assms(3) in \<open>simp add: handleControlConn_def idle_def\<close>)

lemma tunnel_inv_step:
  assumes "tunnel_step y z" and inv: "tunnel_inv y"
  shows "tunnel_inv z"
  using assms(1)
proof (cases rule: tunnel_step.cases)
  case (server c s)
  with inv idle_step show ?thesis by (auto simp: tunnel_inv_def)
next
  case (login xs remote ys strm rnd ts now)
  with inv idle_login show ?thesis by (simp add: tunnel_inv_def)
next
  case (client k d)
  then have "short_id (conf d)" using inv conf_step by (auto simp: tunnel_inv_def)
  with client inv show ?thesis by (auto simp: tunnel_inv_def dest: set_update_subset_insert [THEN subsetD])
next
  case (reply k j strm)
  have "conf (authenticate j strm (clis y ! k)) = conf (clis y ! k)"
    using conf_step [OF client_step.auth] reply by blast
  moreover have id: "short_id (conf (clis y ! k))" using inv reply by (simp add: tunnel_inv_def)
  have "\<exists>g n. short_id g \<and> b = hmac_payload g n" if b: "b \<in> set (wire z)" for b
  proof (cases "b \<in> set (wire y)")
    case True
    with inv show ?thesis by (simp add: tunnel_inv_def)
  next
    case False
    then have "b \<in> set (replies (conf (clis y ! k)) strm)" using b reply by simp
    from replies_payload [OF this] id show ?thesis by blast
  qed
  with id calculation show ?thesis using reply inv
    by (auto simp: tunnel_inv_def dest: set_update_subset_insert [THEN subsetD])
qed

interpretation tunnel: step_invariant tunnel_step tunnel_inv
  by unfold_locales (rule tunnel_inv_step)

lemma tunnel_inv_init: "list_all short_id gs \<Longrightarrow> tunnel_inv (start_tunnel cfg gs)"
  by (auto simp: tunnel_inv_def start_tunnel_def idle_def NewServer_def NewClient_def list_all_iff)

subsection \<open>Properties\<close>

text \<open>
  C6. The two programs never get together. Whatever the configurations of the server and of the clients
  are (with identifiers that fit the server's buffer), in every interleaving the server registers no
  session, opens no port and reserves none. And yet every client can come to believe that it was
  authenticated: there is a run in which it serves its session with a clean record, while the
  server has counted it as a failure and has forgotten it.
\<close>

theorem two_programs_never_meet:
  assumes "list_all short_id gs" and "tunnel_step\<^sup>*\<^sup>* (start_tunnel cfg gs) y" and "short_id g"
  shows "sessions (srv y) = [] \<and> clients (srv y) = [] \<and> sockets (srv y) = [] \<and> listeners (srv y) = []
      \<and> usedPorts (srv y) = []
    \<and> (\<exists>z. tunnel_step\<^sup>*\<^sup>* (start_tunnel cfg [g]) z \<and> pc (clis z ! 0) = Serving 0
        \<and> \<not> closed_sessions (clis z ! 0) ! 0 \<and> reconnectAttempts (clis z ! 0) = 0
        \<and> authFailures (srv z) = 1 \<and> handshaking (srv z) = [])"
proof -
  have "tunnel_inv y" by (rule tunnel.reachable [OF assms(2) tunnel_inv_init [OF assms(1)]])
  moreover
  define n where "n = replicate 32 (0 :: byte)"
  let ?p = "hmac_payload g n"
  let ?s1 = "acceptControl ''h'' ''h:1'' 0 (NewServer cfg)"
  let ?c1 = "(NewClient g)\<lparr>pc := Dialling\<rparr>" and ?strm = "Some (new_conn [Seg n] 1)"
  let ?c2 = "store_session ?c1"
  let ?c3 = "authenticate 0 ?strm ?c2"
  let ?s2 = "(handleControlConn ''h:1'' (Some (new_conn [Seg ?p] 1)) (Some n) [] 0 ?s1)\<lparr>handshaking := []\<rparr>"
  have perform: "performHMACAuth g (new_conn [Seg n] 1)
      = (None, (new_conn [Seg n] 1)\<lparr>rx := [], tx := [?p], wleft := 0\<rparr>)"
    by (simp add: performHMACAuth_def read_full_def ev_read_full_Seg new_conn_def n_def)
  have h: "handshaking ?s1 = [] @ ''h:1'' # []"
    by (simp add: acceptControl_def NewServer_def Allow_def NewRateLimiter_def attempts_of_def)
  have deliv: "delivered [?p] (Some (new_conn [Seg ?p] 1))"
    by (simp add: delivered_def new_conn_def)
  let ?y0 = "start_tunnel cfg [g]"
  let ?y1 = "?y0\<lparr>srv := ?s1\<rparr>"
  let ?y2 = "?y1\<lparr>clis := [?c1]\<rparr>" let ?y3 = "?y2\<lparr>clis := [?c2]\<rparr>"
  let ?y4 = "?y3\<lparr>clis := [?c3], wire := [?p]\<rparr>" let ?z = "?y4\<lparr>srv := ?s2\<rparr>"
  have "tunnel_step ?y0 ?y1"
    using tunnel_step.server [OF server_step.accept, of ?y0 "''h''" "''h:1''" 0] h
    by (simp add: start_tunnel_def NewServer_def)
  moreover have "tunnel_step ?y1 ?y2"
    using tunnel_step.client [of 0 ?y1 ?c1] client_step.check [of "NewClient g"]
    by (simp add: start_tunnel_def NewClient_def)
  moreover have "tunnel_step ?y2 ?y3"
    using tunnel_step.client [of 0 ?y2 ?c2] client_step.connection [of ?c1]
    by (simp add: start_tunnel_def)
  moreover have "tunnel_step ?y3 ?y4"
    using tunnel_step.reply [of 0 ?y3 0 ?strm] perform
    by (simp add: start_tunnel_def store_session_def NewClient_def replies_def new_conn_def)
  moreover have "tunnel_step ?y4 ?z"
    using tunnel_step.login [of ?y4 "[]" "''h:1''" "[]" "Some (new_conn [Seg ?p] 1)" "Some n" "[]" 0] h deliv
    by simp
  ultimately have "tunnel_step\<^sup>*\<^sup>* ?y0 ?z" and "tunnel_inv y"
    by (meson rtranclp.rtrancl_into_rtrancl rtranclp.rtrancl_refl)+
  moreover have "\<not> snd (fst (authenticateStream cfg (Some n) (new_conn [Seg ?p] 1)))"
    using delivered_refused [OF deliv] assms(3) by auto
  then have "authFailures ?s2 = 1"
    by (auto simp: handleControlConn_def acceptControl_def NewServer_def Allow_def NewRateLimiter_def
        attempts_of_def sendWebhookAlert_def split: prod.split)
  moreover have "pc ?c3 = Serving 0 \<and> \<not> closed_sessions ?c3 ! 0 \<and> reconnectAttempts ?c3 = 0"
    using perform by (simp add: authenticate_def store_session_def NewClient_def)
  ultimately show ?thesis
    by (intro conjI exI [of _ ?z]) (simp_all add: tunnel_inv_def idle_def)
qed

lemma two_programs_never_meet_witness:
  "\<exists>z. tunnel_step\<^sup>*\<^sup>* (start_tunnel zero_server [zero_client]) z \<and> authFailures (srv z) = 1
     \<and> sessions (srv (start_tunnel zero_server [zero_client])) = []"
proof -
  have "short_id zero_client" by (simp add: short_id_def zero_client_def)
  with two_programs_never_meet [of "[zero_client]" zero_server _ zero_client, OF _ rtranclp.rtrancl_refl]
  show ?thesis by auto
qed

end
