(* ===== verification/Server_Admission.thy ===== *)
theory Server_Admission
  imports Server_Steps
begin

text \<open>
  The accept loop of the server together with its rate limiter and the clock: a run of the server in
  which every accepted connection and every tick of the limiter's cleanup goroutine is logged with
  its time, between any other steps of the server.
\<close>

inductive timed_run ::
    "ServerConfig \<Rightarrow> (int \<times> rl_event) list \<Rightarrow> bool option list \<Rightarrow> Server \<Rightarrow> bool" for cfg where
  begins: "timed_run cfg [] [] (NewServer cfg)"
| accepts: "timed_run cfg es os s \<Longrightarrow>
    timed_run cfg (es @ [(now, Call remoteIP)]) (os @ [Some (fst (Allow remoteIP now (rateLimiter s)))])
      (acceptControl remoteIP remote now s)"
| ticks: "timed_run cfg es os s \<Longrightarrow>
    timed_run cfg (es @ [(now, Tick)]) (os @ [None]) (s\<lparr>rateLimiter := cleanup now (rateLimiter s)\<rparr>)"
| other: "timed_run cfg es os s \<Longrightarrow> server_step c s t \<Longrightarrow> rateLimiter t = rateLimiter s \<Longrightarrow>
    totalConnections t = totalConnections s \<Longrightarrow> timed_run cfg es os t"

lemma run_out_append: "run_out st (es @ fs) s = run_out st es s @ run_out st fs (run_state st es s)"
  by (induction es arbitrary: s) auto

text \<open>The limiter inside the server goes through the run of the limiter alone.\<close>

lemma timed_run_limiter:
  "timed_run cfg es os s \<Longrightarrow>
     os = run_out rl_step es (NewRateLimiter 20 60000000000)
   \<and> rateLimiter s = run_state rl_step es (NewRateLimiter 20 60000000000)
   \<and> totalConnections s = of_nat (length (filter (\<lambda>v. v = Some True) os))"
proof (induction rule: timed_run.induct)
  case begins
  then show ?case by (simp add: NewServer_def)
next
  case (accepts es os s now ip remote)
  then show ?case
    by (cases "Allow ip now (rateLimiter s)")
      (auto simp: run_out_append run_state_append acceptControl_def split: bool.split)
next
  case (ticks es os s now)
  then show ?case by (simp add: run_out_append run_state_append)
qed simp

subsection \<open>Properties\<close>



end
