(* ===== verification/Server_Types.thy ===== *)
theory Server_Types
  imports Dashboard
begin

text \<open>
  The typing of the server's state: which values its fields can hold. Addresses of sessions and
  sockets are never dangling; ports are TCP ports wherever a socket stands behind them; dynamic
  ports come from the configured range; alerts are objects of one of three shapes.
\<close>

definition tcp_port :: "int \<Rightarrow> bool" where
  "tcp_port p \<longleftrightarrow> 1 \<le> p \<and> p \<le> 65535"

definition dynamic_port :: "ServerConfig \<Rightarrow> int \<Rightarrow> bool" where
  "dynamic_port cfg p \<longleftrightarrow> tcp_port p \<and> p \<le> snd (GetDynamicPortRange cfg)
     \<and> (snd (GetDynamicPortRange cfg) < max_int64 \<longrightarrow> fst (GetDynamicPortRange cfg) \<le> p)"

definition configured_port :: "ServerConfig \<Rightarrow> int \<Rightarrow> bool" where
  "configured_port cfg p \<longleftrightarrow> list_ex (\<lambda>c. p \<in> set (Ports c)) (Clients cfg)"

definition known_port :: "ServerConfig \<Rightarrow> int \<Rightarrow> bool" where
  "known_port cfg p \<longleftrightarrow> p \<noteq> 0 \<and> configured_port cfg p \<or> dynamic_port cfg p"

fun alert_ok :: "json \<Rightarrow> bool" where
  "alert_ok (JObj [(d, JObj [(k, JStr _)]), (e, JStr ev), (t, JStr _)]) \<longleftrightarrow>
     d = ''data'' \<and> e = ''event'' \<and> t = ''timestamp''
     \<and> (ev = ''AuthFailure'' \<and> k = ''remote''
        \<or> (ev = ''ClientConnected'' \<or> ev = ''ClientDisconnected'') \<and> k = ''client_id'')"
| "alert_ok _ = False"

definition typed :: "Server \<Rightarrow> bool" where
  "typed s \<longleftrightarrow>
     (\<forall>p. is_used (usedPorts s) p \<longrightarrow> dynamic_port (config s) p)
   \<and> list_all (\<lambda>(sid, ports). \<forall>p \<in> set ports. configured_port (config s) p) (setups s)
   \<and> list_all (\<lambda>(p, sid). known_port (config s) p) (starting s)
   \<and> list_all (\<lambda>c. \<forall>p \<in> set (ActivePorts c). tcp_port p \<and> known_port (config s) p) (sessions s)
   \<and> list_all (\<lambda>l. tcp_port (l_port l) \<and> known_port (config s) (l_port l)) (sockets s)
   \<and> list_all alert_ok (alerts s)"

lemma list_all_updated: "list_all P xs \<Longrightarrow> P y \<Longrightarrow> list_all P (xs[i := y])"
  by (cases "i < length xs") (auto simp: list_all_length nth_list_update list_update_beyond)

lemma list_all_updated_nth:
  "list_all P xs \<Longrightarrow> (i < length xs \<Longrightarrow> P (xs ! i) \<Longrightarrow> P y) \<Longrightarrow> list_all P (xs[i := y])"
  by (cases "i < length xs") (auto simp: list_all_length nth_list_update list_update_beyond)

lemma allocated_dynamic:
  assumes "AllocateDynamicPort cfg probe m = Some (Inr p, m')" and "\<And>q. probe q \<Longrightarrow> tcp_port q"
  shows "dynamic_port cfg p" and "m' = AList.update p True m"
proof -
  obtain lo hi where r: "GetDynamicPortRange cfg = (lo, hi)" by (metis surj_pair)
  have s: "alloc_scan (is_used m) probe lo hi = Some (Some p)" and "m' = AList.update p True m"
    using assms(1) r by (auto simp: AllocateDynamicPort_def split: option.splits)
  then show "m' = AList.update p True m" by simp
  have "min_int64 \<le> lo" using range_bounds [of cfg] by (simp add: r min_int64_def)
  then have "lo \<le> p" if "hi < max_int64"
    using alloc_scan_least [OF _ that, of lo "is_used m" probe] s by auto
  with alloc_scan_Some [OF s] assms(2) r show "dynamic_port cfg p"
    by (simp add: dynamic_port_def)
qed

lemma setup_ports_configured: "p \<in> set (setup_ports cfg i) \<Longrightarrow> configured_port cfg p"
  by (auto simp: setup_ports_def configured_port_def list_ex_iff)

lemma alert_typed:
  assumes "list_all alert_ok (alerts s)"
    and "e = ''AuthFailure'' \<and> k = ''remote''
      \<or> (e = ''ClientConnected'' \<or> e = ''ClientDisconnected'') \<and> k = ''client_id''"
  shows "list_all alert_ok (alerts (sendWebhookAlert ts e [(k, v)] s))"
  using assms by (auto simp: sendWebhookAlert_def)

lemma register_alerts_typed:
  "list_all alert_ok (alerts s) \<Longrightarrow> list_all alert_ok (alerts (register_client i ts now s))"
  by (auto simp: register_client_def Let_def close_session_def intro!: alert_typed split: option.split)

lemma control_alerts_typed:
  "list_all alert_ok (alerts s) \<Longrightarrow> list_all alert_ok (alerts (handleControlConn remote strm rnd ts now s))"
  by (auto simp: handleControlConn_def intro!: alert_typed register_alerts_typed
      split: option.split prod.split)

lemma monitor_session_typed:
  assumes "list_all alert_ok (alerts s)"
  shows "list_all alert_ok (alerts (monitorSession ts sid s))"
proof -
  have "alerts (fold monitor_port ps u) = alerts u" for ps u
    by (induction ps arbitrary: u) (simp_all add: monitor_port_def close_listener_def split: option.split)
  then show ?thesis using assms by (simp add: monitorSession_def Let_def alert_typed)
qed

lemma monitor_session_ports:
  "list_all (\<lambda>l. P (l_port l)) (sockets s) \<Longrightarrow> list_all (\<lambda>l. P (l_port l)) (sockets (monitorSession ts sid s))"
  by (auto simp: list_all_length)

lemma monitor_session_used:
  "is_used (usedPorts (monitorSession ts sid s)) p \<Longrightarrow> is_used (usedPorts s) p"
  by (simp add: monitorSession_def Let_def)

lemma setup_port_cases [consumes 1, case_names fixed none dynamic]:
  assumes "setup_port probe sid port s = Some t"
  obtains "port \<noteq> 0" "t = s\<lparr>starting := starting s @ [(port, sid)]\<rparr>"
    | "t = s"
    | q m where "AllocateDynamicPort (config s) probe (usedPorts s) = Some (Inr q, m)"
        "t = s\<lparr>usedPorts := m, starting := starting s @ [(q, sid)]\<rparr>"
proof (cases "port = 0")
  case True
  then obtain r m where a: "AllocateDynamicPort (config s) probe (usedPorts s) = Some (r, m)"
    using assms by (auto simp: setup_port_def split: option.splits)
  show ?thesis
  proof (cases r)
    case (Inl e)
    with a have "m = usedPorts s"
      by (auto simp: AllocateDynamicPort_def Let_def split: option.splits prod.splits)
    with that(2) a Inl True assms show ?thesis by (simp add: setup_port_def)
  next
    case (Inr q)
    with that(3) a True assms show ?thesis by (simp add: setup_port_def)
  qed
qed (use assms that(1) in \<open>simp add: setup_port_def\<close>)

lemma can_listen_tcp: "can_listen s p \<Longrightarrow> tcp_port p"
  by (simp add: can_listen_def tcp_port_def)

lemma typed_step:
  assumes "server_step c s t" and "typed s"
  shows "typed t"
  using assms(1)
proof (cases rule: server_step.cases)
  case (accept ip r now)
  with assms(2) show ?thesis
    by (auto simp: typed_def acceptControl_def split: prod.split bool.split)
next
  case (control xs remote ys strm rnd ts now)
  note al = control_alerts_typed [of s remote strm rnd ts now]
  show ?thesis
  proof (rule handleControlConn_cases [of remote strm rnd ts now s])
    fix n al' assume e: "handleControlConn remote strm rnd ts now s = s\<lparr>authFailures := n, alerts := al'\<rparr>"
    with control al assms(2) show ?thesis by (simp add: typed_def)
  next
    fix i assume e: "handleControlConn remote strm rnd ts now s = register_client i ts now s"
    have "list_all (\<lambda>c. \<forall>p \<in> set (ActivePorts c). tcp_port p \<and> known_port (config s) p)
        (sessions (register_client i ts now s))"
      using assms(2) by (auto simp: register_sessions typed_def fresh_session_def
          intro!: list_all_updated_nth split: option.split)
    with control al assms(2) e show ?thesis
      by (auto simp: typed_def dest: setup_ports_configured)
  qed
next
  case (session_ends sid)
  with assms(2) show ?thesis
    by (auto simp: typed_def close_session_def intro!: list_all_updated_nth)
next
  case (setup_next xs sid port ports ys probe u)
  then have sp: "setup_port probe sid port s = Some u"
    and tcp: "\<And>q. probe q \<Longrightarrow> tcp_port q"
    using can_listen_tcp by blast+
  note f = setup_port_frame [OF sp]
  have c: "configured_port (config s) port" using setup_next assms(2) by (simp add: typed_def)
  from sp have "typed (u\<lparr>setups := []\<rparr>)"
  proof (cases rule: setup_port_cases)
    case fixed
    with c assms(2) show ?thesis by (simp add: typed_def known_port_def)
  next
    case none
    with assms(2) show ?thesis by (simp add: typed_def)
  next
    case (dynamic q m)
    from allocated_dynamic [OF dynamic(1) tcp] dynamic(2) assms(2) show ?thesis
      by (simp add: typed_def known_port_def)
  qed
  with setup_next f assms(2) show ?thesis by (simp add: typed_def)
next
  case (setup_done xs sid ys)
  with assms(2) show ?thesis by (simp add: typed_def)
next
  case (start xs port sid ys bound)
  have k: "known_port (config s) port" using start assms(2) by (simp add: typed_def)
  show ?thesis
  proof (cases "map_of (listeners s) port = None \<and> bound")
    case True
    then have "tcp_port port" using start can_listen_tcp by blast
    with True start k assms(2) show ?thesis
      by (auto simp: typed_def startProxyListener_def Let_def intro!: list_all_updated_nth)
  next
    case False
    then have "startProxyListener bound port sid s = s"
      by (auto simp: startProxyListener_def split: option.split)
    with start assms(2) show ?thesis by (simp add: typed_def)
  qed
next
  case (monitor xs sid ys ts)
  with assms(2) monitor_session_typed [of s ts sid] monitor_session_used [of ts sid s]
    monitor_session_ports [of "\<lambda>p. tcp_port p \<and> known_port (config s) p" s ts sid]
  show ?thesis by (auto simp: typed_def)
next
  case (accept_ends xs port sid lid ys)
  with assms(2) show ?thesis
    by (auto simp: typed_def stopProxyListener_def close_listener_def ReleaseDynamicPort_def Let_def
        intro!: list_all_updated_nth)
next
  case (accept_faults xs port sid lid ys)
  with assms(2) show ?thesis
    by (auto simp: typed_def stopProxyListener_def close_listener_def ReleaseDynamicPort_def Let_def
        intro!: list_all_updated_nth)
qed (use assms(2) in \<open>auto simp: typed_def proxy_enter_def proxy_leave_def proxy_copied_rx_def
    proxy_copied_tx_def upd_session_def intro!: list_all_updated_nth\<close>)

interpretation typing: step_invariant any_step typed
  by unfold_locales (auto simp: any_step_def intro: typed_step)

lemma reachable_typed: "server_reachable cfg s \<Longrightarrow> typed s"
  unfolding server_reachable_def
  by (erule typing.reachable) (simp add: typed_def NewServer_def is_used_def)

lemma known_tcp:
  assumes "serving_ok s" and "typed s" and "(p, sid, lid) \<in> set (serving s)"
  shows "tcp_port p \<and> known_port (config s) p"
  using assms by (fastforce simp: serving_ok_def typed_def list_all_length)

subsection \<open>Properties\<close>

text \<open>
  C3. The state is well typed in every interleaving. Every goroutine and every registered client refers
  to a session that exists, and every accept loop to an existing socket on its port; every port that
  is listened on or listed for a session is a TCP port, and either a fixed port of the configuration
  or a dynamic one; a reserved port is a TCP port of the configured range, of which the lower bound
  can only be missed when the upper one is the largest integer; and every alert has one of the three
  shapes.
\<close>

theorem server_state_well_typed:
  assumes "server_reachable cfg s"
  shows "(sid \<in> set (monitors s @ map fst (setups s) @ map snd (starting s) @ map fst (proxying s)
        @ map snd (clients s)) \<longrightarrow> sid < length (sessions s))
    \<and> ((p, sid, lid) \<in> set (serving s) \<longrightarrow> sid < length (sessions s) \<and> lid < length (sockets s)
        \<and> l_port (sockets s ! lid) = p \<and> tcp_port p \<and> known_port cfg p)
    \<and> (k < length (sessions s) \<and> p \<in> set (ActivePorts (sessions s ! k)) \<longrightarrow> tcp_port p \<and> known_port cfg p)
    \<and> (is_used (usedPorts s) p \<longrightarrow> dynamic_port cfg p)
    \<and> list_all alert_ok (alerts s)"
proof -
  have inv: "server_inv s" and ty: "typed s" and cfg: "config s = cfg" and keys: "distinct (map fst (clients s))"
    using reachable_inv [OF assms] reachable_typed [OF assms] reachable_config [OF assms]
      reachable_keys [OF assms]
    by (simp_all add: keys_ok_def)
  have "sid < length (sessions s)"
    if "sid \<in> set (monitors s @ map fst (setups s) @ map snd (starting s) @ map fst (proxying s))"
    using inv that by (auto simp: server_inv_def goroutines_ok_def list_all_iff)
  moreover have "sid < length (sessions s)" if m: "sid \<in> set (map snd (clients s))"
  proof -
    obtain i where "(i, sid) \<in> set (clients s)" using m by auto
    then have "map_of (clients s) i = Some sid" by (rule map_of_is_SomeI [OF keys])
    with inv show ?thesis by (auto simp: server_inv_def clients_ok_def)
  qed
  moreover have "sid < length (sessions s) \<and> lid < length (sockets s) \<and> l_port (sockets s ! lid) = p
      \<and> tcp_port p \<and> known_port cfg p" if "(p, sid, lid) \<in> set (serving s)"
    using inv that known_tcp [OF _ ty that] cfg by (auto simp: server_inv_def serving_ok_def)
  ultimately show ?thesis using ty cfg by (auto simp: typed_def list_all_length)
qed

lemma server_state_well_typed_witness:
  "\<exists>s. execute_all up_80 (NewServer (one_client [80])) = Some s \<and> list_all alert_ok (alerts s)
     \<and> ActivePorts (sessions s ! 0) = [80] \<and> tcp_port 80 \<and> known_port (one_client [80]) 80"
proof -
  have "map_option (\<lambda>s. (ActivePorts (sessions s ! 0), length (sessions s)))
      (execute_all up_80 (NewServer (one_client [80]))) = Some ([80], 1)"
    by code_simp
  then obtain s where s: "execute_all up_80 (NewServer (one_client [80])) = Some s"
    "ActivePorts (sessions s ! 0) = [80]" "length (sessions s) = 1"
    by auto
  from server_state_well_typed [OF execute_all_from_start [OF s(1)], of _ 80 _ 0] s show ?thesis by simp
qed

end
