(* ===== verification/Compressed_Pipe.thy ===== *)
theory Compressed_Pipe
  imports Pipe
begin

text \<open>
  Joining two connections through Snappy (\<^verbatim>\<open>pkg/tunnel/mux.go\<close>, \<open>PipeWithCompress\<close>) and the two session
  constructors. Snappy and the multiplexer are other people's packages and arguments of the
  definitions. A buffered writer takes bytes and writes frames to the connection under it when it
  sees fit, at the latest when it is flushed; a reader gives the contents of the frames it reads.
\<close>

record ('w, 'r) snappy =
  NewBufferedWriter :: 'w
  sn_write :: "'w \<Rightarrow> bytes \<Rightarrow> conn \<Rightarrow> bool \<times> 'w \<times> conn"
  sn_flush :: "'w \<Rightarrow> conn \<Rightarrow> conn"
  NewReader :: 'r
  sn_read :: "'r \<Rightarrow> conn \<Rightarrow> (bytes \<times> bool) \<times> 'r \<times> conn"

text \<open>One round of the copy loop: whether it ends the copying. The writer is flushed at the end.\<close>

definition compressed_round ::
    "('w, 'r) snappy \<Rightarrow> 'w \<times> 'r \<Rightarrow> conn \<Rightarrow> conn \<Rightarrow> bool \<times> ('w \<times> 'r) \<times> conn \<times> conn" where
  "compressed_round sn wr to from =
     (case wr of (writer, reader) \<Rightarrow>
      case sn_read sn reader from of
        ((buf, err), reader, from) \<Rightarrow>
          if buf = [] then (err, (writer, reader), to, from)
          else (case sn_write sn writer buf to of
                  (False, writer, to) \<Rightarrow> (True, (writer, reader), to, from)
                | (True, writer, to) \<Rightarrow> (err, (writer, reader), to, from)))"

fun compressed_loops ::
    "('w, 'r) snappy \<Rightarrow> bool list \<Rightarrow> 'w \<times> 'r \<Rightarrow> 'w \<times> 'r \<Rightarrow> conn \<Rightarrow> conn \<Rightarrow> (conn \<times> conn) option" where
  "compressed_loops sn [] a b src dst = None"
| "compressed_loops sn (True # sched) a b src dst =
     (case compressed_round sn a src dst of
        (True, (writer, _), src, dst) \<Rightarrow> Some (conn_close (sn_flush sn writer src), conn_close dst)
      | (False, a, src, dst) \<Rightarrow> compressed_loops sn sched a b src dst)"
| "compressed_loops sn (False # sched) a b src dst =
     (case compressed_round sn b dst src of
        (True, (writer, _), dst, src) \<Rightarrow> Some (conn_close src, conn_close (sn_flush sn writer dst))
      | (False, b, dst, src) \<Rightarrow> compressed_loops sn sched a b src dst)"

definition PipeWithCompress ::
    "('w, 'r) snappy \<Rightarrow> bool list \<Rightarrow> conn \<Rightarrow> conn \<Rightarrow> bool \<Rightarrow> (conn \<times> conn) option" where
  "PipeWithCompress sn sched src dst compress =
     (if \<not> compress then Pipe sched src dst
      else compressed_loops sn sched (NewBufferedWriter sn, NewReader sn)
             (NewBufferedWriter sn, NewReader sn) src dst)"

subsection \<open>What Snappy promises\<close>

text \<open>
  \<open>content\<close> is what a sequence of bytes decodes to, up to the first byte that is not Snappy.
  \<open>W w p out\<close>: a writer in state \<open>w\<close> has been given \<open>p\<close> and has written \<open>out\<close>; \<open>R r s d\<close>: a reader in
  state \<open>r\<close> has read \<open>s\<close> and has given \<open>d\<close>. A reader that goes on makes progress: \<open>m\<close> decreases.
\<close>

definition snappy_writer ::
    "('w, 'r) snappy \<Rightarrow> (bytes \<Rightarrow> bytes) \<Rightarrow> ('w \<Rightarrow> bytes \<Rightarrow> bytes \<Rightarrow> bool) \<Rightarrow> bool" where
  "snappy_writer sn content W \<longleftrightarrow>
     W (NewBufferedWriter sn) [] []
   \<and> (\<forall>w p out. W w p out \<longrightarrow> prefix (content out) p)
   \<and> (\<forall>w p out b c ok w' c'. W w p out \<longrightarrow> sn_write sn w b c = (ok, w', c') \<longrightarrow>
        rx c' = rx c \<and> (\<exists>e. concat (tx c') = concat (tx c) @ e \<and> W w' (p @ b) (out @ e)))
   \<and> (\<forall>w p out c. W w p out \<longrightarrow>
        (\<exists>e. concat (tx (sn_flush sn w c)) = concat (tx c) @ e \<and> prefix (content (out @ e)) p))"

definition snappy_reader ::
    "('w, 'r) snappy \<Rightarrow> (bytes \<Rightarrow> bytes) \<Rightarrow> ('r \<Rightarrow> bytes \<Rightarrow> bytes \<Rightarrow> bool) \<Rightarrow> ('r \<Rightarrow> rx_event list \<Rightarrow> nat) \<Rightarrow> bool"
    where
  "snappy_reader sn content R m \<longleftrightarrow>
     (\<forall>s t. prefix s t \<longrightarrow> prefix (content s) (content t))
   \<and> R (NewReader sn) [] []
   \<and> (\<forall>r s d. R r s d \<longrightarrow> prefix d (content s))
   \<and> (\<forall>r s d c b err r' c'. R r s d \<longrightarrow> sn_read sn r c = ((b, err), r', c') \<longrightarrow>
        tx c' = tx c \<and> (\<not> err \<longrightarrow> m r' (rx c') < m r (rx c))
      \<and> (\<exists>q. stream (rx c) = q @ stream (rx c') \<and> R r' (s @ q) (d @ b)))"

subsection \<open>One direction\<close>

text \<open>
  The state of one copy loop: \<open>out\<close> is what it has written, \<open>S\<close> the whole stream of the connection
  it reads.
\<close>

definition copying ::
    "('w \<Rightarrow> bytes \<Rightarrow> bytes \<Rightarrow> bool) \<Rightarrow> ('r \<Rightarrow> bytes \<Rightarrow> bytes \<Rightarrow> bool) \<Rightarrow> bytes \<Rightarrow> bytes \<Rightarrow> 'w \<times> 'r
       \<Rightarrow> conn \<Rightarrow> bytes \<Rightarrow> bool" where
  "copying W R base S wr to left \<longleftrightarrow>
     (\<exists>p s out. W (fst wr) p out \<and> R (snd wr) s p \<and> S = s @ left \<and> concat (tx to) = base @ out)"

text \<open>A part of the other's contents has arrived.\<close>

definition relayed :: "(bytes \<Rightarrow> bytes) \<Rightarrow> bytes \<Rightarrow> bytes \<Rightarrow> conn \<Rightarrow> bool" where
  "relayed content base S to \<longleftrightarrow>
     (\<exists>w. concat (tx to) = base @ w \<and> prefix (content w) (content S))"

lemma copying_cong: "tx to' = tx to \<Longrightarrow> copying W R base S wr to' left = copying W R base S wr to left"
  by (simp add: copying_def)

lemma copying_relayed:
  assumes "snappy_writer sn content W" and "snappy_reader sn content R m"
    and "copying W R base S wr to left"
  shows "relayed content base S to" and "relayed content base S (sn_flush sn (fst wr) to)"
proof -
  obtain p s out where c: "W (fst wr) p out" "R (snd wr) s p" "S = s @ left" "concat (tx to) = base @ out"
    using assms(3) by (auto simp: copying_def)
  have "prefix p (content s)" and mono: "prefix (content s) (content S)"
    using assms(2) c(2,3) by (simp_all add: snappy_reader_def)
  then have p: "prefix p (content S)" by (rule prefix_order.trans)
  moreover have "prefix (content out) p" using assms(1) c(1) by (simp add: snappy_writer_def)
  ultimately show "relayed content base S to" using c(4) by (auto simp: relayed_def intro: prefix_order.trans)
  obtain e where "concat (tx (sn_flush sn (fst wr) to)) = concat (tx to) @ e" "prefix (content (out @ e)) p"
    using assms(1) c(1) unfolding snappy_writer_def by blast
  with p c(4) show "relayed content base S (sn_flush sn (fst wr) to)"
    by (auto simp: relayed_def intro: prefix_order.trans)
qed

lemma copying_round:
  assumes "snappy_writer sn content W" and "snappy_reader sn content R m"
    and "copying W R base S wr to (stream (rx from))"
    and "compressed_round sn wr to from = (fin, wr', to', from')"
  shows "copying W R base S wr' to' (stream (rx from'))" and "tx from' = tx from" and "rx to' = rx to"
    and "\<not> fin \<Longrightarrow> m (snd wr') (rx from') < m (snd wr) (rx from)"
proof -
  obtain w r where wr: "wr = (w, r)" by (cases wr)
  obtain buf err r1 f1 where rd: "sn_read sn r from = ((buf, err), r1, f1)" by (metis surj_pair)
  obtain ok w1 t1 where wri: "sn_write sn w buf to = (ok, w1, t1)" by (metis surj_pair)
  obtain p s out where c: "W w p out" "R r s p" "S = s @ stream (rx from)" "concat (tx to) = base @ out"
    using assms(3) wr by (auto simp: copying_def)
  have "tx f1 = tx from" and less: "\<not> err \<Longrightarrow> m r1 (rx f1) < m r (rx from)"
    and "\<exists>q. stream (rx from) = q @ stream (rx f1) \<and> R r1 (s @ q) (p @ buf)"
    using assms(2) c(2) rd unfolding snappy_reader_def by blast+
  then obtain q where q: "stream (rx from) = q @ stream (rx f1)" "R r1 (s @ q) (p @ buf)" by blast
  have "rx t1 = rx to" and "\<exists>e. concat (tx t1) = concat (tx to) @ e \<and> W w1 (p @ buf) (out @ e)"
    using assms(1) c(1) wri unfolding snappy_writer_def by blast+
  then obtain e where e: "concat (tx t1) = concat (tx to) @ e" "W w1 (p @ buf) (out @ e)" by blast
  have res: "from' = f1" "snd wr' = r1"
    "buf = [] \<and> fin = err \<and> to' = to \<and> fst wr' = w \<or> fin = (ok \<longrightarrow> err) \<and> to' = t1 \<and> fst wr' = w1"
    using assms(4) wr rd wri by (auto simp: compressed_round_def split: if_splits bool.splits)
  have all: "S = (s @ q) @ stream (rx f1)" using c(3) q(1) by simp
  from res(3) show "copying W R base S wr' to' (stream (rx from'))"
  proof
    assume "buf = [] \<and> fin = err \<and> to' = to \<and> fst wr' = w"
    with c q all res show ?thesis
      unfolding copying_def by (intro exI [of _ p] exI [of _ "s @ q"] exI [of _ out]) simp
  next
    assume "fin = (ok \<longrightarrow> err) \<and> to' = t1 \<and> fst wr' = w1"
    with c e q all res show ?thesis
      unfolding copying_def by (intro exI [of _ "p @ buf"] exI [of _ "s @ q"] exI [of _ "out @ e"]) simp
  qed
  show "tx from' = tx from" "rx to' = rx to" using res \<open>tx f1 = tx from\<close> \<open>rx t1 = rx to\<close> by auto
  assume "\<not> fin"
  with res wr less show "m (snd wr') (rx from') < m (snd wr) (rx from)" by auto
qed

subsection \<open>Both directions\<close>

lemma relayed_close [simp]: "relayed content base S (conn_close c) = relayed content base S c"
  by (simp add: relayed_def)

lemma loops_spec:
  assumes "snappy_writer sn content W" and "snappy_reader sn content R m"
  shows "copying W R bs Sd a src (stream (rx dst)) \<Longrightarrow> copying W R bd Ss b dst (stream (rx src)) \<Longrightarrow>
     (case compressed_loops sn sched a b src dst of
        None \<Rightarrow> length sched \<le> m (snd a) (rx dst) + m (snd b) (rx src)
      | Some (s', d') \<Rightarrow> closed s' \<and> closed d' \<and> relayed content bs Sd s' \<and> relayed content bd Ss d')"
proof (induction sched arbitrary: a b src dst)
  case (Cons way sched)
  show ?case
  proof (cases way)
    case True
    obtain fin w r s1 d1 where rd: "compressed_round sn a src dst = (fin, (w, r), s1, d1)"
      by (metis surj_pair)
    note f = copying_round [OF assms Cons.prems(1) rd]
    have other: "copying W R bd Ss b d1 (stream (rx s1))"
      using Cons.prems(2) f(3) by (simp add: copying_cong [OF f(2)])
    show ?thesis
    proof (cases fin)
      case True
      with \<open>way\<close> rd copying_relayed(2) [OF assms f(1)] copying_relayed(1) [OF assms other]
      show ?thesis by simp
    next
      case False
      with \<open>way\<close> rd have "compressed_loops sn (way # sched) a b src dst = compressed_loops sn sched (w, r) b s1 d1"
        by simp
      moreover have "m r (rx d1) < m (snd a) (rx dst)" using f(4) False by simp
      ultimately show ?thesis using Cons.IH [OF f(1) other] f(3)
        by (cases "compressed_loops sn sched (w, r) b s1 d1") simp_all
    qed
  next
    case way: False
    obtain fin w r s1 d1 where rd: "compressed_round sn b dst src = (fin, (w, r), d1, s1)"
      by (metis surj_pair)
    note f = copying_round [OF assms Cons.prems(2) rd]
    have other: "copying W R bs Sd a s1 (stream (rx d1))"
      using Cons.prems(1) f(3) by (simp add: copying_cong [OF f(2)])
    show ?thesis
    proof (cases fin)
      case True
      with way rd copying_relayed(2) [OF assms f(1)] copying_relayed(1) [OF assms other]
      show ?thesis by simp
    next
      case False
      with way rd have "compressed_loops sn (way # sched) a b src dst = compressed_loops sn sched a (w, r) s1 d1"
        by simp
      moreover have "m r (rx s1) < m (snd b) (rx src)" using f(4) False by simp
      ultimately show ?thesis using Cons.IH [OF other f(1)] f(3)
        by (cases "compressed_loops sn sched a (w, r) s1 d1") simp_all
    qed
  qed
qed simp

subsection \<open>Sessions\<close>

text \<open>The constructors wrap what the multiplexer gives; its errors are passed on.\<close>

record 'y mux_session =
  yamux :: 'y

definition NewServerSession :: "('c \<Rightarrow> string + 'y) \<Rightarrow> 'c \<Rightarrow> string + 'y mux_session" where
  "NewServerSession yamux_Server conn =
     (case yamux_Server conn of
        Inl err \<Rightarrow> Inl err
      | Inr session \<Rightarrow> Inr \<lparr>yamux = session\<rparr>)"

definition NewClientSession :: "('c \<Rightarrow> string + 'y) \<Rightarrow> 'c \<Rightarrow> string + 'y mux_session" where
  "NewClientSession yamux_Client conn =
     (case yamux_Client conn of
        Inl err \<Rightarrow> Inl err
      | Inr session \<Rightarrow> Inr \<lparr>yamux = session\<rparr>)"

subsection \<open>Properties\<close>


text \<open>
  A writer that holds everything back until it is flushed is allowed. The byte that the first loop has
  read is lost when the second loop ends.
\<close>

definition holding_codec :: "(bytes, unit) snappy" where
  "holding_codec = \<lparr>NewBufferedWriter = [], sn_write = \<lambda>w b c. (True, w @ b, c),
     sn_flush = \<lambda>w c. snd (conn_write w c), NewReader = (), sn_read = \<lambda>r c.
       (case conn_read 32768 c of (res, c) \<Rightarrow> (res, (), c))\<rparr>"

lemma holding_codec_ok:
  "snappy_writer holding_codec (\<lambda>s. s) (\<lambda>w p out. out @ w = p)"
  "snappy_reader holding_codec (\<lambda>s. s) (\<lambda>r s d. s = d) (\<lambda>r evs. length evs + length (stream evs))"
proof -
  show "snappy_writer holding_codec (\<lambda>s. s) (\<lambda>w p out. out @ w = p)"
    by (auto simp: snappy_writer_def holding_codec_def conn_write_def)
  have rd: "stream evs = b @ stream r \<and> (\<not> err \<longrightarrow> length r + length (stream r) < length evs + length (stream evs))"
    if "ev_read 32768 evs = ((b, err), r)" for evs b err r
    using that ev_read_smaller [of 32768 evs b r]
    by (cases "(32768 :: nat, evs)" rule: ev_read.cases) (auto split: if_splits)
  then show "snappy_reader holding_codec (\<lambda>s. s) (\<lambda>r s d. s = d) (\<lambda>r evs. length evs + length (stream evs))"
    by (auto simp: snappy_reader_def holding_codec_def conn_read_def split: prod.splits if_splits dest!: rd)
qed


end
