(* ===== verification/Url_Query.thy ===== *)
theory Url_Query
  imports Go_Std "HOL-Library.Char_ord"
begin

text \<open>
  How a token travels in a URL: what a browser makes of a URL string that a script gives to \<^verbatim>\<open>fetch\<close> (the
  URL standard), and how the server reads the query (\<^verbatim>\<open>net/url\<close>, \<^verbatim>\<open>Query().Get\<close>). A string is the
  sequence of its UTF-8 bytes.
\<close>

subsection \<open>net/url\<close>

definition hex_digits :: string where
  "hex_digits = ''0123456789ABCDEF''"

definition hex_val :: "char \<Rightarrow> nat option" where
  "hex_val c =
     (let n = of_char c :: nat in
      if 48 \<le> n \<and> n \<le> 57 then Some (n - 48)
      else if 65 \<le> n \<and> n \<le> 70 then Some (n - 55)
      else if 97 \<le> n \<and> n \<le> 102 then Some (n - 87)
      else None)"

text \<open>\<^verbatim>\<open>QueryUnescape\<close>; None is an error.\<close>

fun query_unescape :: "string \<Rightarrow> string option" where
  "query_unescape [] = Some []"
| "query_unescape (c # s) =
     (if c = CHR ''%'' then
        (case s of
           a # b # r \<Rightarrow>
             (case (hex_val a, hex_val b) of
                (Some x, Some y) \<Rightarrow> map_option (\<lambda>t. char_of (16 * x + y) # t) (query_unescape r)
              | _ \<Rightarrow> None)
         | _ \<Rightarrow> None)
      else map_option (\<lambda>t. (if c = CHR ''+'' then CHR '' '' else c) # t) (query_unescape s))"

fun split_on :: "char \<Rightarrow> string \<Rightarrow> string list" where
  "split_on d [] = [[]]"
| "split_on d (c # s) =
     (if c = d then [] # split_on d s else (c # hd (split_on d s)) # tl (split_on d s))"

text \<open>One part of a query. A part with a semicolon or a malformed escape is dropped.\<close>

definition query_pair :: "string \<Rightarrow> (string \<times> string) option" where
  "query_pair part =
     (if part = [] \<or> CHR '';'' \<in> set part then None
      else case (query_unescape (takeWhile (\<lambda>c. c \<noteq> CHR ''='') part),
                 query_unescape (drop 1 (dropWhile (\<lambda>c. c \<noteq> CHR ''='') part))) of
             (Some k, Some v) \<Rightarrow> Some (k, v)
           | _ \<Rightarrow> None)"

definition parse_query :: "string \<Rightarrow> (string \<times> string) list" where
  "parse_query q = List.map_filter query_pair (split_on (CHR ''&'') q)"

definition query_get :: "string \<Rightarrow> string \<Rightarrow> string" where
  "query_get k q = (case map_of (parse_query q) k of Some v \<Rightarrow> v | None \<Rightarrow> [])"

subsection \<open>The browser\<close>

definition c0_or_space :: "char \<Rightarrow> bool" where
  "c0_or_space c \<longleftrightarrow> (of_char c :: nat) \<le> 32"

definition tab_or_newline :: "char \<Rightarrow> bool" where
  "tab_or_newline c \<longleftrightarrow> (of_char c :: nat) \<in> {9, 10, 13}"

text \<open>The characters of a query that are sent as an escape.\<close>

definition escaped :: "char \<Rightarrow> bool" where
  "escaped c \<longleftrightarrow> (of_char c :: nat) \<le> 32 \<or> (of_char c :: nat) > 126 \<or> c \<in> set ''\"#<>'' \<or> c = CHR 0x27"

definition escape :: "char \<Rightarrow> string" where
  "escape c =
     (if escaped c then [CHR ''%'', hex_digits ! (of_char c div 16), hex_digits ! (of_char c mod 16)] else [c])"

definition escape_query :: "string \<Rightarrow> string" where
  "escape_query s = concat (map escape s)"

definition clean_url :: "string \<Rightarrow> string" where
  "clean_url u =
     filter (\<lambda>c. \<not> tab_or_newline c) (rev (dropWhile c0_or_space (rev (dropWhile c0_or_space u))))"

text \<open>The path, which is sent as it is for the plain paths of this program, and the query.\<close>

definition browser_target :: "string \<Rightarrow> string \<times> string" where
  "browser_target u =
     (let u = takeWhile (\<lambda>c. c \<noteq> CHR ''#'') (clean_url u)
      in (takeWhile (\<lambda>c. c \<noteq> CHR ''?'') u, escape_query (drop 1 (dropWhile (\<lambda>c. c \<noteq> CHR ''?'') u))))"

subsection \<open>Splitting and unescaping\<close>

lemma split_on_not_Nil [simp]: "split_on d s \<noteq> []"
  by (induction s) auto

lemma split_on_append: "d \<notin> set p \<Longrightarrow> split_on d (p @ s) = (p @ hd (split_on d s)) # tl (split_on d s)"
  by (induction p) auto

lemma split_on_single: "d \<notin> set s \<Longrightarrow> split_on d s = [s]"
  by (induction s) auto

lemma split_on_parts: "part \<in> set (split_on d s) \<Longrightarrow> length part \<le> length s \<and> set part \<subseteq> set s"
proof (induction s arbitrary: part)
  case (Cons c s)
  obtain x xs where sp: "split_on d s = x # xs" by (cases "split_on d s") auto
  with Cons show ?case by (fastforce split: if_splits)
qed simp

lemma split_on_shorter: "d \<in> set s \<Longrightarrow> part \<in> set (split_on d s) \<Longrightarrow> length part < length s"
proof (induction s arbitrary: part)
  case (Cons c s)
  obtain x xs where sp: "split_on d s = x # xs" by (cases "split_on d s") auto
  show ?case
  proof (cases "c = d")
    case True
    with Cons.prems split_on_parts [of part d s] show ?thesis by auto
  next
    case False
    with Cons.prems have "d \<in> set s" by auto
    with Cons.IH sp False Cons.prems(2) show ?thesis by fastforce
  qed
qed simp

lemma hex_digits_facts:
  assumes "n < 16"
  shows "hex_val (hex_digits ! n) = Some n" and "hex_digits ! n \<noteq> CHR ''%''" and "hex_digits ! n \<noteq> CHR ''&''"
    and "hex_digits ! n \<noteq> CHR '';''" and "hex_digits ! n \<noteq> CHR ''=''"
proof -
  have "list_all (\<lambda>n. hex_val (hex_digits ! n) = Some n \<and> hex_digits ! n \<noteq> CHR ''%'' \<and> hex_digits ! n \<noteq> CHR ''&''
      \<and> hex_digits ! n \<noteq> CHR '';'' \<and> hex_digits ! n \<noteq> CHR ''='') [0..<16]"
    by code_simp
  with assms show "hex_val (hex_digits ! n) = Some n" "hex_digits ! n \<noteq> CHR ''%''" "hex_digits ! n \<noteq> CHR ''&''"
    "hex_digits ! n \<noteq> CHR '';''" "hex_digits ! n \<noteq> CHR ''=''"
    by (auto simp: list_all_iff)
qed

lemma of_char_div: "(of_char c :: nat) div 16 < 16" and of_char_mod: "(of_char c :: nat) mod 16 < 16"
  by (simp_all add: of_char_def less_mult_imp_div_less)

lemma char_of_parts [simp]: "char_of (16 * ((of_char c :: nat) div 16) + of_char c mod 16) = (c :: char)"
  by simp

lemma unescape_escape: "escaped c \<Longrightarrow> query_unescape (escape c @ s) = map_option ((#) c) (query_unescape s)"
  by (simp add: escape_def hex_digits_facts of_char_div of_char_mod)

lemma escape_plain: "\<not> escaped c \<Longrightarrow> escape c = [c]"
  by (simp add: escape_def)

lemma escape_query_simps [simp]:
  "escape_query [] = []" "escape_query (c # s) = escape c @ escape_query s"
  "escape_query (s @ t) = escape_query s @ escape_query t"
  by (simp_all add: escape_query_def)

lemma unescape_safe:
  "CHR ''%'' \<notin> set t \<Longrightarrow>
     query_unescape (escape_query t) = Some (map (\<lambda>c. if c = CHR ''+'' then CHR '' '' else c) t)"
proof (induction t)
  case (Cons c t)
  have plus: "escaped c \<Longrightarrow> c \<noteq> CHR ''+''" by (auto simp: escaped_def)
  show ?case
  proof (cases "escaped c")
    case True
    with Cons plus show ?thesis by (simp add: unescape_escape)
  qed (use Cons in \<open>auto simp: escape_plain\<close>)
qed simp

lemma hex_val_percent [simp]: "hex_val (CHR ''%'') = None"
  by (simp add: hex_val_def)

lemma length_unescape: "query_unescape s = Some t \<Longrightarrow> length t + 2 * count_list s (CHR ''%'') = length s"
proof (induction s arbitrary: t rule: query_unescape.induct)
  case (2 c s)
  show ?case
  proof (cases "c = CHR ''%''")
    case True
    with "2.prems" obtain a b r x y u where s: "s = a # b # r" "hex_val a = Some x" "hex_val b = Some y"
      "query_unescape r = Some u" "t = char_of (16 * x + y) # u"
      by (auto split: list.splits option.splits)
    moreover have "a \<noteq> CHR ''%''" "b \<noteq> CHR ''%''" using s by auto
    ultimately show ?thesis using "2.IH"(1) [OF True s(1) refl refl s(2,3) s(4)] True by simp
  next
    case False
    with "2.prems" "2.IH"(2) show ?thesis by auto
  qed
qed simp

lemma length_unescape_escape:
  assumes "query_unescape (escape_query t) = Some u"
  shows "length u + 2 * count_list t (CHR ''%'') = length t"
proof -
  have one: "length (escape c) + 2 * count_list [c] (CHR ''%'') = 1 + 2 * count_list (escape c) (CHR ''%'')" for c
  proof (cases "escaped c")
    case True
    then have "c \<noteq> CHR ''%''" by (auto simp: escaped_def)
    with True show ?thesis by (simp add: escape_def hex_digits_facts of_char_div of_char_mod)
  qed (simp add: escape_plain)
  have "length (escape_query t) + 2 * count_list t (CHR ''%'') = length t + 2 * count_list (escape_query t) (CHR ''%'')"
  proof (induction t)
    case (Cons c t)
    with one [of c] show ?case by (auto split: if_splits)
  qed simp
  with length_unescape [OF assms] show ?thesis by simp
qed

lemma set_escape: "d \<in> {CHR ''&'', CHR '';'', CHR ''=''} \<Longrightarrow> d \<in> set (escape c) \<longleftrightarrow> c = d"
  by (auto simp: escape_def escaped_def hex_digits_facts hex_digits_facts(2-) [THEN not_sym] of_char_div of_char_mod)

lemma set_escape_query: "d \<in> {CHR ''&'', CHR '';'', CHR ''=''} \<Longrightarrow> d \<in> set (escape_query t) \<longleftrightarrow> d \<in> set t"
  by (induction t) (auto simp: set_escape)

lemma escape_delimiter [simp]: "escape (CHR ''&'') = ''&''" "escape (CHR ''='') = ''=''"
  by (simp_all add: escape_def escaped_def)

lemma split_escape: "split_on (CHR ''&'') (escape_query t) = map escape_query (split_on (CHR ''&'') t)"
proof (induction t)
  case (Cons c t)
  show ?case
  proof (cases "c = CHR ''&''")
    case False
    then have "CHR ''&'' \<notin> set (escape c)" by (simp add: set_escape)
    with False Cons show ?thesis by (simp add: split_on_append hd_map map_tl)
  qed (use Cons in simp)
qed simp

lemma value_escape:
  "drop 1 (dropWhile (\<lambda>c. c \<noteq> CHR ''='') (escape_query t))
     = escape_query (drop 1 (dropWhile (\<lambda>c. c \<noteq> CHR ''='') t))"
proof (induction t)
  case (Cons c t)
  show ?case
  proof (cases "c = CHR ''=''")
    case False
    then have "CHR ''='' \<notin> set (escape c)" by (simp add: set_escape)
    then have "dropWhile (\<lambda>c. c \<noteq> CHR ''='') (escape c @ escape_query t) = dropWhile (\<lambda>c. c \<noteq> CHR ''='') (escape_query t)"
      by (auto simp: dropWhile_append)
    with False Cons show ?thesis by simp
  qed simp
qed simp

subsection \<open>A token on its way\<close>

text \<open>The value that one part of the query gives is no longer than the text it comes from.\<close>

lemma query_pair_escape_length:
  assumes "query_pair (escape_query p) = Some (k, v)"
  shows "length v \<le> length p"
proof -
  have "query_unescape (escape_query (drop 1 (dropWhile (\<lambda>c. c \<noteq> CHR ''='') p))) = Some v"
    unfolding value_escape [symmetric]
    using assms by (simp add: query_pair_def split: if_splits option.splits)
  from length_unescape_escape [OF this] have "length v \<le> length (drop 1 (dropWhile (\<lambda>c. c \<noteq> CHR ''='') p))"
    by simp
  also have "\<dots> \<le> length p" using length_dropWhile_le [of "\<lambda>c. c \<noteq> CHR ''=''" p] by simp
  finally show ?thesis .
qed

lemma set_map_filter_iff: "y \<in> set (List.map_filter f xs) \<longleftrightarrow> (\<exists>x\<in>set xs. f x = Some y)"
  by (force simp: map_filter_def)

lemma query_pair_token:
  "query_pair (''token='' @ s) =
     (if CHR '';'' \<in> set s then None else map_option (Pair ''token'') (query_unescape s))"
  by (simp add: query_pair_def split: option.split)

lemma token_query_parts:
  "parse_query (''token='' @ escape_query t) =
     List.map_filter query_pair ((''token='' @ escape_query (hd (split_on (CHR ''&'') t)))
       # map escape_query (tl (split_on (CHR ''&'') t)))"
proof -
  have "split_on (CHR ''&'') (''token='' @ escape_query t)
      = (''token='' @ hd (split_on (CHR ''&'') (escape_query t))) # tl (split_on (CHR ''&'') (escape_query t))"
    by (rule split_on_append) simp
  then show ?thesis by (simp add: parse_query_def split_escape hd_map map_tl)
qed

text \<open>One value the server can have got: it comes from a part of the token.\<close>

lemma query_get_cases:
  "query_get ''token'' (''token='' @ escape_query t) = []
   \<or> (\<exists>p\<in>set (split_on (CHR ''&'') t). length (query_get ''token'' (''token='' @ escape_query t)) \<le> length p)"
proof (cases "map_of (parse_query (''token='' @ escape_query t)) ''token''")
  case (Some v)
  let ?ps = "split_on (CHR ''&'') t"
  have "(''token'', v) \<in> set (parse_query (''token='' @ escape_query t))" using Some by (rule map_of_SomeD)
  then obtain part where part: "query_pair part = Some (''token'', v)"
    "part = ''token='' @ escape_query (hd ?ps) \<or> part \<in> set (map escape_query (tl ?ps))"
    unfolding token_query_parts set_map_filter_iff by (auto simp del: append.simps)
  from part(2) have "\<exists>p\<in>set ?ps. length v \<le> length p"
  proof
    assume "part = ''token='' @ escape_query (hd ?ps)"
    with part(1) have "query_pair (''token='' @ escape_query (hd ?ps)) = Some (''token'', v)" by (simp only:)
    then have "query_unescape (escape_query (hd ?ps)) = Some v"
      unfolding query_pair_token by (auto split: if_splits)
    from length_unescape_escape [OF this] show ?thesis by (intro bexI [of _ "hd ?ps"]) simp_all
  next
    assume "part \<in> set (map escape_query (tl ?ps))"
    then obtain p where "p \<in> set (tl ?ps)" "part = escape_query p" by auto
    with query_pair_escape_length [of p] part(1) show ?thesis
      by (intro bexI [of _ p]) (auto intro: list.set_sel(2))
  qed
  with Some show ?thesis by (simp add: query_get_def)
qed (simp add: query_get_def)

definition query_safe :: "string \<Rightarrow> bool" where
  "query_safe t \<longleftrightarrow> list_all (\<lambda>c. c \<notin> set ''&+;%'') t"

lemma query_get_length: "length (query_get ''token'' (''token='' @ escape_query t)) \<le> length t"
  using query_get_cases [of t] split_on_parts [of _ "CHR ''&''" t] by fastforce

lemma query_get_one_part:
  assumes "CHR ''&'' \<notin> set t"
  shows "query_get ''token'' (''token='' @ escape_query t) =
    (if CHR '';'' \<in> set t then [] else case query_unescape (escape_query t) of None \<Rightarrow> [] | Some v \<Rightarrow> v)"
proof -
  have "query_pair (''token='' @ escape_query t) =
      (if CHR '';'' \<in> set t then None else map_option (Pair ''token'') (query_unescape (escape_query t)))"
    by (simp only: query_pair_token set_escape_query insert_iff simp_thms)
  then show ?thesis
    unfolding query_get_def token_query_parts split_on_single [OF assms] list.sel list.map
    by (cases "query_unescape (escape_query t)") (simp_all only: map_filter_simps, simp_all)
qed

lemma query_get_token: "query_get ''token'' (''token='' @ escape_query t) = t \<longleftrightarrow> query_safe t"
proof (cases "CHR ''&'' \<in> set t")
  case True
  then have "0 < length t" and shorter: "p \<in> set (split_on (CHR ''&'') t) \<Longrightarrow> length p < length t" for p
    by (auto intro: split_on_shorter)
  define g where "g = query_get ''token'' (''token='' @ escape_query t)"
  from query_get_cases [of t, folded g_def] have "length g < length t"
    using \<open>0 < length t\<close> by (auto intro: le_less_trans shorter)
  then have "query_get ''token'' (''token='' @ escape_query t) \<noteq> t" by (auto simp only: g_def)
  with True show ?thesis by (auto simp: query_safe_def list_all_iff)
next
  case False
  note g = query_get_one_part [OF False]
  consider "CHR '';'' \<in> set t" | "CHR '';'' \<notin> set t" "0 < count_list t (CHR ''%'')"
    | "CHR '';'' \<notin> set t" "CHR ''%'' \<notin> set t"
    by (meson count_list_0_iff gr0I)
  then show ?thesis
  proof cases
    case 1
    then show ?thesis unfolding g by (auto simp: query_safe_def list_all_iff)
  next
    case 2
    then have "(case query_unescape (escape_query t) of None \<Rightarrow> [] | Some v \<Rightarrow> v) \<noteq> t"
      by (auto split: option.split dest: length_unescape_escape)
    moreover have "CHR ''%'' \<in> set t" using 2(2) count_list_0_iff [of t "CHR ''%''"] by auto
    ultimately show ?thesis using 2(1) unfolding g by (auto simp: query_safe_def list_all_iff)
  next
    case 3
    have "map (\<lambda>c. if c = CHR ''+'' then CHR '' '' else c) t = t \<longleftrightarrow> CHR ''+'' \<notin> set t"
      by (induction t) auto
    with 3 False show ?thesis unfolding g
      by (auto simp: unescape_safe query_safe_def list_all_iff)
  qed
qed

text \<open>What is left of a text at the end of a URL when the browser sends it.\<close>

definition sent :: "string \<Rightarrow> string" where
  "sent t = takeWhile (\<lambda>c. c \<noteq> CHR ''#'')
     (filter (\<lambda>c. \<not> tab_or_newline c) (rev (dropWhile c0_or_space (rev t))))"

definition url_safe :: "string \<Rightarrow> bool" where
  "url_safe t \<longleftrightarrow> query_safe t \<and> list_all (\<lambda>c. c \<noteq> CHR ''#'' \<and> \<not> tab_or_newline c) t
     \<and> (t = [] \<or> \<not> c0_or_space (last t))"

lemma strip_prefix: "prefix (rev (dropWhile c0_or_space (rev t))) t"
  by (metis rev_append rev_rev_ident prefixI takeWhile_dropWhile_id)

lemma sent_subseq:
  shows "subseq (sent t) (rev (dropWhile c0_or_space (rev t)))" and "subseq (sent t) t"
proof -
  have "subseq (takeWhile P (filter Q r)) r" for P Q and r :: string
    by (meson prefix_imp_subseq subseq_filter_left subseq_order.trans takeWhile_is_prefix)
  then show "subseq (sent t) (rev (dropWhile c0_or_space (rev t)))" by (simp only: sent_def)
  then show "subseq (sent t) t" using prefix_imp_subseq [OF strip_prefix] by (rule subseq_order.trans)
qed

lemma sent_shorter: "sent t \<noteq> t \<Longrightarrow> length (sent t) < length t"
  using sent_subseq(2) [of t] list_emb_length [of "(=)" "sent t" t] subseq_same_length [of "sent t" t]
  by fastforce

lemma sent_id: "sent t = t \<longleftrightarrow> list_all (\<lambda>c. c \<noteq> CHR ''#'' \<and> \<not> tab_or_newline c) t \<and> (t = [] \<or> \<not> c0_or_space (last t))"
proof
  assume id: "sent t = t"
  have "list_all (\<lambda>c. c \<noteq> CHR ''#'' \<and> \<not> tab_or_newline c) (sent t)"
    by (auto simp: sent_def list_all_iff dest: set_takeWhileD)
  moreover have "length t \<le> length (dropWhile c0_or_space (rev t))"
    using list_emb_length [OF sent_subseq(1) [of t]] id by simp
  then have "t = [] \<or> \<not> c0_or_space (last t)"
    using length_dropWhile_le [of c0_or_space "rev (butlast t)"]
    by (cases t rule: rev_cases) (auto split: if_splits)
  ultimately show "list_all (\<lambda>c. c \<noteq> CHR ''#'' \<and> \<not> tab_or_newline c) t \<and> (t = [] \<or> \<not> c0_or_space (last t))"
    using id by simp
next
  assume ok: "list_all (\<lambda>c. c \<noteq> CHR ''#'' \<and> \<not> tab_or_newline c) t \<and> (t = [] \<or> \<not> c0_or_space (last t))"
  then have "dropWhile c0_or_space (rev t) = rev t"
    by (cases "rev t") (auto simp: last_rev [symmetric] hd_rev)
  moreover have "filter (\<lambda>c. \<not> tab_or_newline c) t = t" using ok by (simp add: filter_id_conv list_all_iff)
  moreover have "takeWhile (\<lambda>c. c \<noteq> CHR ''#'') t = t" using ok by (simp add: list_all_iff)
  ultimately show "sent t = t" by (simp add: sent_def)
qed

definition plain_path :: "string \<Rightarrow> bool" where
  "plain_path p \<longleftrightarrow> p \<noteq> [] \<and> list_all (\<lambda>c. \<not> c0_or_space c \<and> c \<noteq> CHR ''#'' \<and> c \<noteq> CHR ''?'') p"

lemma tab_is_c0: "tab_or_newline c \<Longrightarrow> c0_or_space c"
  by (auto simp: tab_or_newline_def c0_or_space_def)

lemma browser_target_token:
  assumes "plain_path p"
  shows "browser_target (p @ ''?token='' @ t) = (p, ''token='' @ escape_query (sent t))"
proof -
  define q where "q = p @ ''?token=''"
  have q: "q \<noteq> []" "list_all (\<lambda>c. \<not> c0_or_space c \<and> c \<noteq> CHR ''#'') q"
    using assms by (auto simp: q_def plain_path_def c0_or_space_def list_all_iff)
  then obtain c u d w where cu: "q = c # u" "\<not> c0_or_space c" and dw: "rev q = d # w" "\<not> c0_or_space d"
    by (metis list.set_intros(1) list_all_iff neq_Nil_conv rev_is_Nil_conv set_rev)
  have "rev (dropWhile c0_or_space (rev (dropWhile c0_or_space (q @ t)))) = q @ rev (dropWhile c0_or_space (rev t))"
  proof -
    have "dropWhile c0_or_space (q @ t) = q @ t" using cu by simp
    moreover have "dropWhile c0_or_space (rev t @ rev q) = dropWhile c0_or_space (rev t) @ rev q"
      using dw by (auto simp: dropWhile_append dropWhile_eq_Nil_conv)
    ultimately show ?thesis by simp
  qed
  moreover have "filter (\<lambda>c. \<not> tab_or_newline c) q = q"
    using q(2) by (auto simp: filter_id_conv list_all_iff dest: tab_is_c0)
  ultimately have "takeWhile (\<lambda>c. c \<noteq> CHR ''#'') (clean_url (q @ t)) = q @ sent t"
    using q(2) by (auto simp: clean_url_def sent_def list_all_iff takeWhile_append)
  moreover have "takeWhile (\<lambda>c. c \<noteq> CHR ''?'') (q @ s) = p"
    and "drop 1 (dropWhile (\<lambda>c. c \<noteq> CHR ''?'') (q @ s)) = ''token='' @ s" for s
    using assms by (auto simp: q_def plain_path_def list_all_iff takeWhile_append dropWhile_append)
  moreover have "escape_query (''token='' @ sent t) = ''token='' @ escape_query (sent t)"
    by (simp add: escape_def escaped_def)
  ultimately have "browser_target (q @ t) = (p, ''token='' @ escape_query (sent t))"
    by (simp only: browser_target_def Let_def)
  then show ?thesis by (simp add: q_def)
qed

text \<open>
  The server gets exactly the token that the script put into the URL iff the token is safe; otherwise
  it gets something else.
\<close>

lemma token_arrives:
  assumes "plain_path p"
  shows "query_get ''token'' (snd (browser_target (p @ ''?token='' @ t))) = t \<longleftrightarrow> url_safe t"
proof (cases "sent t = t")
  case True
  with query_get_token [of t] sent_id [of t] show ?thesis
    unfolding browser_target_token [OF assms] snd_conv url_safe_def by auto
next
  case False
  then have "length (sent t) < length t" by (rule sent_shorter)
  with query_get_length [of "sent t"] False sent_id [of t] show ?thesis
    unfolding browser_target_token [OF assms] snd_conv url_safe_def by (auto simp del: append.simps)
qed

end
