(* ===== verification/Dashboard_Scripts.thy ===== *)
theory Dashboard_Scripts
  imports Dashboard Url_Query
begin

text \<open>
  The scripts in the two pages, and what they show: the page of \<open>DashboardHandler\<close> takes the token from
  its own address and fills a table (\<open>fetchData\<close>), the page of \<open>Server\<close> has the token in its text and
  prints the status (\<open>loadData\<close>). What the browser only formats is an argument: numbers, dates,
  \<^verbatim>\<open>JSON.stringify\<close>, and in \<open>formatBytes\<close> the logarithm and the rounded quotient.
\<close>

record js_env =
  number_text :: "json \<Rightarrow> string"
  locale_date :: "json option \<Rightarrow> string"
  unit_index :: "json option \<Rightarrow> nat"
  quotient_text :: "json option \<Rightarrow> nat \<Rightarrow> string"
  stringify :: "json \<Rightarrow> string"

fun join_with :: "string \<Rightarrow> string list \<Rightarrow> string" where
  "join_with sep [] = []"
| "join_with sep [x] = x"
| "join_with sep (x # y # xs) = x @ sep @ join_with sep (y # xs)"

text \<open>A value where a script puts it into a text.\<close>

fun js_text :: "js_env \<Rightarrow> json \<Rightarrow> string" where
  "js_text js JNull = ''null''"
| "js_text js (JBool b) = (if b then ''true'' else ''false'')"
| "js_text js (JInt i) = number_text js (JInt i)"
| "js_text js JFrac = number_text js JFrac"
| "js_text js (JStr s) = s"
| "js_text js (JArr xs) = join_with '','' (map (\<lambda>x. if x = JNull then [] else js_text js x) xs)"
| "js_text js (JObj fs) = ''[object Object]''"

fun js_member :: "json \<Rightarrow> string \<Rightarrow> json option" where
  "js_member (JObj fs) k = map_of fs k"
| "js_member _ k = None"

definition member_text :: "js_env \<Rightarrow> json \<Rightarrow> string \<Rightarrow> string" where
  "member_text js j k = (case js_member j k of Some v \<Rightarrow> js_text js v | None \<Rightarrow> ''undefined'')"

subsection \<open>The page of the handler\<close>

record dom =
  stat_clients :: string
  stat_listeners :: string
  stat_conns :: string
  table_body :: string

definition formatBytes :: "js_env \<Rightarrow> json option \<Rightarrow> string" where
  "formatBytes js bytes =
     (if bytes = Some (JInt 0) then ''0 B''
      else let sizes = [''B'', ''KB'', ''MB'', ''GB'']; i = unit_index js bytes
           in quotient_text js bytes i @ '' '' @ (if i < length sizes then sizes ! i else ''undefined''))"

definition no_clients_row :: string where
  "no_clients_row = ''<tr><td colspan=\"5\" style=\"text-align: center; color: #94a3b8;\">No active client sessions connected.</td></tr>''"

text \<open>One row; None is the exception when there is no list of ports.\<close>

definition client_html :: "js_env \<Rightarrow> json \<Rightarrow> string option" where
  "client_html js c =
     (case js_member c ''active_ports'' of
        Some (JArr ps) \<Rightarrow>
          let ports = join_with '', '' (map (\<lambda>x. if x = JNull then [] else js_text js x) ps)
          in Some (text_lines
            [[],
             ''                        <tr>'',
             ''                            <td><strong>'' @ member_text js c ''id'' @ ''</strong></td>'',
             ''                            <td>'' @ locale_date js (js_member c ''connected_at'') @ ''</td>'',
             ''                            <td>'' @ (if ports = [] then ''None'' else ports) @ ''</td>'',
             ''                            <td>'' @ member_text js c ''active_streams'' @ ''</td>'',
             ''                            <td>'' @ formatBytes js (js_member c ''bytes_tx'') @ '' /''
               @ formatBytes js (js_member c ''bytes_rx'') @ ''</td>'',
             ''                        </tr>'',
             ''                    ''])
      | _ \<Rightarrow> None)"

text \<open>Whether \<^verbatim>\<open>res.ok\<close> holds, and \<^verbatim>\<open>res.json()\<close>, which fails on a body that is not JSON.\<close>

definition res_ok :: "http_response \<Rightarrow> bool" where
  "res_ok res \<longleftrightarrow> 200 \<le> status res \<and> status res \<le> 299"

definition res_json :: "http_response \<Rightarrow> json option" where
  "res_json res = (case body res of JsonBody j \<Rightarrow> Some j | _ \<Rightarrow> None)"

text \<open>The two halves of \<open>fetchData\<close>; None is an exception, which the script catches and logs.\<close>

definition show_status :: "js_env \<Rightarrow> http_response \<Rightarrow> dom \<Rightarrow> dom option" where
  "show_status js statusRes d =
     (if res_ok statusRes then
        map_option (\<lambda>statusData. d\<lparr>stat_clients := member_text js statusData ''active_clients'',
            stat_listeners := member_text js statusData ''active_listeners'',
            stat_conns := member_text js statusData ''total_connections''\<rparr>)
          (res_json statusRes)
      else Some d)"

definition show_clients :: "js_env \<Rightarrow> http_response \<Rightarrow> dom \<Rightarrow> dom" where
  "show_clients js clientsRes d =
     (if res_ok clientsRes then
        (case res_json clientsRes of
           Some (JArr cs) \<Rightarrow>
             if cs = [] then d\<lparr>table_body := no_clients_row\<rparr>
             else (case those (map (client_html js) cs) of
                     Some rows \<Rightarrow> d\<lparr>table_body := concat rows\<rparr>
                   | None \<Rightarrow> d)
         | _ \<Rightarrow> d)
      else d)"

definition fetchData :: "js_env \<Rightarrow> (string \<Rightarrow> http_response) \<Rightarrow> string \<Rightarrow> dom \<Rightarrow> dom" where
  "fetchData js fetch token d =
     (case show_status js (fetch (''/api/status?token='' @ token)) d of
        None \<Rightarrow> d
      | Some d \<Rightarrow> show_clients js (fetch (''/api/clients?token='' @ token)) d)"

subsection \<open>The page of the server\<close>

text \<open>
  The address that \<open>loadData\<close> fetches is a string literal of the page's text: it goes from the call to the
  next quote. None: the literal has an escape or ends with its line, which is not followed up.
\<close>

fun text_after :: "string \<Rightarrow> string \<Rightarrow> string option" where
  "text_after pat [] = None"
| "text_after pat (c # s) = (if prefix pat (c # s) then Some (drop (length pat) (c # s)) else text_after pat s)"

definition js_literal :: "string \<Rightarrow> string option" where
  "js_literal s =
     (let l = takeWhile (\<lambda>c. c \<noteq> CHR 0x27) s
      in if list_all (\<lambda>c. c \<noteq> CHR 0x5C \<and> c \<noteq> CHR 0x0A \<and> c \<noteq> CHR 0x0D) l then Some l else None)"

definition fetched_url :: "string \<Rightarrow> string option" where
  "fetched_url html = Option.bind (text_after (''fetch('' @ [CHR 0x27]) html) js_literal"

text \<open>What the element \<open>data\<close> of the page holds afterwards.\<close>

definition loadData :: "js_env \<Rightarrow> (string \<Rightarrow> http_response) \<Rightarrow> string \<Rightarrow> string \<Rightarrow> string" where
  "loadData js fetch html old =
     (case fetched_url html of
        None \<Rightarrow> old
      | Some url \<Rightarrow>
        (case res_json (fetch url) of
           Some d \<Rightarrow> ''<pre>'' @ stringify js d @ ''</pre>''
         | None \<Rightarrow> old))"

subsection \<open>From the browser to the handlers\<close>

definition browse :: "(http_request \<Rightarrow> http_response) \<Rightarrow> string \<Rightarrow> http_response" where
  "browse route url =
     (case browser_target url of
        (path, query) \<Rightarrow>
          route \<lparr>req_path = path, query_token = query_get ''token'' query, header_token = []\<rparr>)"

lemma paths_plain: "plain_path ''/api/status''" "plain_path ''/api/clients''"
  by code_simp+

lemma browse_path:
  assumes "plain_path p"
  shows "browse route (p @ ''?token='' @ t) =
    route \<lparr>req_path = p, query_token = query_get ''token'' (''token='' @ escape_query (sent t)), header_token = []\<rparr>"
  by (simp only: browse_def browser_target_token [OF assms] prod.case)

text \<open>A request of a script reaches the handler iff the token is safe in a URL.\<close>

lemma browse_guarded:
  assumes "plain_path p" and "map_of routes p = Some (\<lambda>r. ok (JsonBody j))"
  shows "if url_safe (Token cfg)
    then browse (mux_route (map (\<lambda>(pat, h). (pat, authMiddleware cfg h)) routes)) (p @ ''?token='' @ Token cfg)
      = ok (JsonBody j)
    else \<not> res_ok (browse (mux_route (map (\<lambda>(pat, h). (pat, authMiddleware cfg h)) routes)) (p @ ''?token='' @ Token cfg))
      \<and> res_json (browse (mux_route (map (\<lambda>(pat, h). (pat, authMiddleware cfg h)) routes)) (p @ ''?token='' @ Token cfg))
        = None"
proof -
  define q where "q = query_get ''token'' (''token='' @ escape_query (sent (Token cfg)))"
  let ?r = "\<lparr>req_path = p, query_token = q, header_token = []\<rparr>"
  have q: "q = Token cfg \<longleftrightarrow> url_safe (Token cfg)"
    using token_arrives [OF assms(1), of "Token cfg"] unfolding browser_target_token [OF assms(1)] snd_conv q_def .
  have tok: "request_token ?r = q" by (simp add: request_token_def)
  show ?thesis
  proof (cases "url_safe (Token cfg)")
    case True
    have "mux_route routes ?r = ok (JsonBody j)" using assms(2) by (simp add: mux_route_def)
    with guarded_passes [of cfg ?r routes] tok q True show ?thesis
      unfolding browse_path [OF assms(1)] q_def [symmetric] by simp
  next
    case False
    then have "Token cfg \<noteq> []" by (auto simp: url_safe_def query_safe_def)
    with guarded_refuses [of cfg ?r routes] tok q False show ?thesis
      unfolding browse_path [OF assms(1)] q_def [symmetric] by (auto simp: res_ok_def res_json_def)
  qed
qed

subsection \<open>Rows\<close>

text \<open>The row of a session, with its identifier as it is.\<close>

definition session_html :: "js_env \<Rightarrow> (int \<Rightarrow> string) \<Rightarrow> ClientSession \<Rightarrow> string" where
  "session_html js fmt c = text_lines
     [[],
      ''                        <tr>'',
      ''                            <td><strong>'' @ ID c @ ''</strong></td>'',
      ''                            <td>'' @ locale_date js (Some (JStr (fmt (ConnectedAt c)))) @ ''</td>'',
      ''                            <td>'' @
        (let ports = join_with '', '' (map (\<lambda>p. number_text js (JInt p)) (ActivePorts c))
         in if ports = [] then ''None'' else ports) @ ''</td>'',
      ''                            <td>'' @ number_text js (JInt (sint (ActiveStreams c))) @ ''</td>'',
      ''                            <td>'' @ formatBytes js (Some (JInt (uint (BytesTx c)))) @ '' /''
        @ formatBytes js (Some (JInt (uint (BytesRx c)))) @ ''</td>'',
      ''                        </tr>'',
      ''                    '']"

lemma client_html_row: "client_html js (client_row fmt c) = Some (session_html js fmt c)"
proof -
  have ports: "map (\<lambda>x. if x = JNull then [] else js_text js x) (map JInt ps) = map (\<lambda>p. number_text js (JInt p)) ps" for ps
    by simp
  have mem: "js_member (client_row fmt c) ''active_ports'' = Some (JArr (map JInt (ActivePorts c)))"
    "js_member (client_row fmt c) ''bytes_tx'' = Some (JInt (uint (BytesTx c)))"
    "js_member (client_row fmt c) ''bytes_rx'' = Some (JInt (uint (BytesRx c)))"
    "js_member (client_row fmt c) ''connected_at'' = Some (JStr (fmt (ConnectedAt c)))"
    "member_text js (client_row fmt c) ''id'' = ID c"
    "member_text js (client_row fmt c) ''active_streams'' = number_text js (JInt (sint (ActiveStreams c)))"
    by (simp_all add: client_row_def member_text_def)
  show ?thesis
    unfolding client_html_def session_html_def mem option.case json.case ports Let_def ..
qed

lemma those_Some: "(\<And>x. f x = Some (g x)) \<Longrightarrow> those (map f xs) = Some (map g xs)"
  by (induction xs) simp_all

definition shown :: "js_env \<Rightarrow> (int \<Rightarrow> string) \<Rightarrow> Server \<Rightarrow> dom" where
  "shown js fmt s = \<lparr>stat_clients = number_text js (JInt (int (length (clients s)))),
     stat_listeners = number_text js (JInt (int (length (listeners s)))),
     stat_conns = number_text js (JInt (uint (totalConnections s))),
     table_body = (if clients s = [] then no_clients_row
       else concat (map (session_html js fmt) (client_sessions s)))\<rparr>"

definition status_json :: "int \<Rightarrow> Server \<Rightarrow> json" where
  "status_json now s = JObj
     [(''active_clients'', JInt (int (length (clients s)))),
      (''active_listeners'', JInt (int (length (listeners s)))),
      (''auth_failures'', JInt (uint (authFailures s))),
      (''status'', JStr ''running''),
      (''total_connections'', JInt (uint (totalConnections s))),
      (''uptime_seconds'', JInt now)]"

lemma api_routes:
  "map_of (handler_routes now fmt s) ''/api/status'' = Some (\<lambda>r. ok (JsonBody (status_json now s)))"
  "map_of (server_routes now fmt s) ''/api/status'' = Some (\<lambda>r. ok (JsonBody (status_json now s)))"
  "map_of (handler_routes now fmt s) ''/api/clients''
     = Some (\<lambda>r. ok (JsonBody (JArr (map (client_row fmt) (client_sessions s)))))"
  by (simp_all add: handler_routes_def server_routes_def status_json_def dh_handleAPIStatus_def
      handleAPIStatus_def dh_handleAPIClients_def fold_rows fun_eq_iff)

lemma api_urls:
  "''/api/status'' @ ''?token='' @ t = ''/api/status?token='' @ t"
  "''/api/clients'' @ ''?token='' @ t = ''/api/clients?token='' @ t"
  by simp_all

lemma api_browse_safe:
  assumes "url_safe (Token (config s))"
  shows "browse (RegisterRoutes now fmt s) (''/api/status?token='' @ Token (config s)) = ok (JsonBody (status_json now s))"
    and "browse (RegisterRoutes now fmt s) (''/api/clients?token='' @ Token (config s))
      = ok (JsonBody (JArr (map (client_row fmt) (client_sessions s))))"
    and "browse (startDashboardServer now fmt s) (''/api/status?token='' @ Token (config s))
      = ok (JsonBody (status_json now s))"
  unfolding RegisterRoutes_def startDashboardServer_def api_urls [symmetric]
  by (fact browse_guarded [OF paths_plain(1) api_routes(1), of "config s", unfolded if_P [OF assms]]
      browse_guarded [OF paths_plain(2) api_routes(3), of "config s", unfolded if_P [OF assms]]
      browse_guarded [OF paths_plain(1) api_routes(2), of "config s", unfolded if_P [OF assms]])+

lemma api_browse_unsafe:
  assumes "\<not> url_safe (Token (config s))"
  shows "\<not> res_ok (browse (RegisterRoutes now fmt s) (''/api/status?token='' @ Token (config s)))"
    and "\<not> res_ok (browse (RegisterRoutes now fmt s) (''/api/clients?token='' @ Token (config s)))"
    and "res_json (browse (startDashboardServer now fmt s) (''/api/status?token='' @ Token (config s))) = None"
  unfolding RegisterRoutes_def startDashboardServer_def api_urls [symmetric]
  by (fact browse_guarded [OF paths_plain(1) api_routes(1), of "config s", unfolded if_not_P [OF assms], THEN conjunct1]
      browse_guarded [OF paths_plain(2) api_routes(3), of "config s", unfolded if_not_P [OF assms], THEN conjunct1]
      browse_guarded [OF paths_plain(1) api_routes(2), of "config s", unfolded if_not_P [OF assms], THEN conjunct2])+

lemma show_status_ok:
  "show_status js (ok (JsonBody (status_json now s))) d = Some (d\<lparr>
     stat_clients := number_text js (JInt (int (length (clients s)))),
     stat_listeners := number_text js (JInt (int (length (listeners s)))),
     stat_conns := number_text js (JInt (uint (totalConnections s)))\<rparr>)"
  by (simp add: show_status_def res_ok_def res_json_def ok_def status_json_def member_text_def)

lemma show_clients_ok:
  "show_clients js (ok (JsonBody (JArr (map (client_row fmt) cs)))) d = d\<lparr>
     table_body := (if cs = [] then no_clients_row else concat (map (session_html js fmt) cs))\<rparr>"
  by (simp add: show_clients_def res_ok_def res_json_def ok_def client_html_row those_Some comp_def)

lemma fetchData_shows:
  "fetchData js (browse (RegisterRoutes now fmt s)) (Token (config s)) d =
    (if url_safe (Token (config s)) then shown js fmt s else d)"
proof (cases "url_safe (Token (config s))")
  case True
  have "client_sessions s = [] \<longleftrightarrow> clients s = []" by (simp add: client_sessions_def)
  then show ?thesis
    unfolding fetchData_def api_browse_safe [OF True] show_status_ok option.case show_clients_ok
    using True by (simp add: shown_def)
next
  case False
  show ?thesis
    using api_browse_unsafe [OF False, of now fmt] False
    unfolding fetchData_def show_status_def show_clients_def by simp
qed

subsection \<open>The address in the page\<close>

lemma text_after_length: "text_after pat h = Some t \<Longrightarrow> length pat \<le> length h"
  by (induction h) (auto split: if_splits dest: prefix_length_le)

lemma text_after_append: "text_after pat h = Some t \<Longrightarrow> text_after pat (h @ s) = Some (t @ s)"
proof (induction h)
  case (Cons c h)
  show ?case
  proof (cases "prefix pat (c # h)")
    case True
    then have "prefix pat ((c # h) @ s)" by (rule prefix_prefix)
    with Cons.prems True have "text_after pat ((c # h) @ s) = Some (drop (length pat) ((c # h) @ s))"
      and "t = drop (length pat) (c # h)"
      by simp_all
    with prefix_length_le [OF True] show ?thesis by (simp only: drop_append diff_is_0_eq [THEN iffD2] drop_0)
  next
    case False
    with Cons.prems have h: "text_after pat h = Some t" by simp
    from False text_after_length [OF h] have "\<not> prefix pat ((c # h) @ s)"
      using prefix_length_prefix [of pat "(c # h) @ s" "c # h"] by auto
    with h Cons.IH show ?thesis by simp
  qed
qed simp

text \<open>The characters that stand for themselves in a string of a script of a page.\<close>

definition inert_char :: "char \<Rightarrow> bool" where
  "inert_char c \<longleftrightarrow> c \<notin> {CHR 0x27, CHR 0x5C, CHR ''<'', CHR 0x0A, CHR 0x0D, CHR 0x00}"

lemma page_parts:
  "text_after (''fetch('' @ [CHR 0x27]) page_head = Some ''/api/status?token=''"
  "page_tail = CHR 0x27 # tl page_tail"
  by code_simp+

lemma fetched_url_page:
  assumes "list_all inert_char token"
  shows "fetched_url (dashboard_html token) = Some (''/api/status?token='' @ token)"
proof -
  have lit: "list_all inert_char (''/api/status?token='' @ token)"
    using assms by (simp add: inert_char_def)
  then have "takeWhile (\<lambda>c. c \<noteq> CHR 0x27) ((''/api/status?token='' @ token) @ page_tail) = ''/api/status?token='' @ token"
    by (subst page_parts(2)) (rule takeWhile_append2 [THEN trans], auto simp: list_all_iff inert_char_def)
  moreover have "list_all (\<lambda>c. c \<noteq> CHR 0x5C \<and> c \<noteq> CHR 0x0A \<and> c \<noteq> CHR 0x0D) (''/api/status?token='' @ token)"
    using lit by (rule list.pred_mono_strong) (simp add: inert_char_def)
  ultimately have "js_literal ((''/api/status?token='' @ token) @ page_tail) = Some (''/api/status?token='' @ token)"
    by (simp only: js_literal_def Let_def if_True)
  moreover have "text_after (''fetch('' @ [CHR 0x27]) (dashboard_html token) = Some ((''/api/status?token='' @ token) @ page_tail)"
    unfolding dashboard_html_def using text_after_append [OF page_parts(1), of "token @ page_tail"] by simp
  ultimately show ?thesis by (simp only: fetched_url_def Option.bind.simps)
qed

subsection \<open>Properties\<close>


definition plain_js :: js_env where
  "plain_js = \<lparr>number_text = \<lambda>j. (case j of JInt i \<Rightarrow> itoa i | _ \<Rightarrow> ''NaN''), locale_date = \<lambda>d. [],
     unit_index = \<lambda>b. 0, quotient_text = \<lambda>b i. [], stringify = \<lambda>j. ''{...}''\<rparr>"


end
