(* ===== verification/Socks5.thy ===== *)
theory Socks5
  imports Prelude
begin

text \<open>
  The local SOCKS5 proxy (\<^verbatim>\<open>pkg/client/socks5.go\<close>): it configures and starts a server of another package,
  whose constructor and accept loop are arguments. The two programs do not use it.
\<close>

record 'd socks5_config =
  Dial :: "'d option"

text \<open>The returned error; None is nil. \<open>dialer\<close> is None for a nil function.\<close>

definition StartSocks5Server ::
    "('d socks5_config \<Rightarrow> 'e + 's) \<Rightarrow> ('s \<Rightarrow> string \<Rightarrow> string \<Rightarrow> 'e option) \<Rightarrow> string \<Rightarrow> 'd option \<Rightarrow> 'e option" where
  "StartSocks5Server socks5_New ListenAndServe listenAddr dialer =
     (let conf = \<lparr>Dial = None\<rparr>;
          conf = (case dialer of None \<Rightarrow> conf | Some d \<Rightarrow> conf\<lparr>Dial := Some d\<rparr>)
      in case socks5_New conf of
           Inl err \<Rightarrow> Some err
         | Inr server \<Rightarrow> ListenAndServe server ''tcp'' listenAddr)"

text \<open>It is the library's server with the given dialer, and returns only with the library's errors.\<close>

lemma socks5_error:
  "StartSocks5Server new serve addr dialer = Some err \<longleftrightarrow>
     new \<lparr>Dial = dialer\<rparr> = Inl err \<or> (\<exists>s. new \<lparr>Dial = dialer\<rparr> = Inr s \<and> serve s ''tcp'' addr = Some err)"
  by (cases dialer) (auto simp: StartSocks5Server_def split: sum.split)

end
