(* ===== verification/Spec2Isabelle.thy ===== *)
theory Spec2Isabelle
  imports Rate_Limiter Auth_Protocol Xor_Obfuscation Junk_Handshake Config Control_Auth Port_Alloc
    Server_Orderly Dashboard Observability Forwarded_Connection Udp_Framing Udp_Proxy Pipe Programs
    Two_Programs Server_Admission Server_Types Compressed_Pipe Dashboard_Scripts Socks5
begin

text \<open>
  A verification library of the reverse tunnel: a server that accepts control connections of clients,
  authenticates them and opens public ports for them, and a client that keeps one multiplexed
  session to the server and forwards what comes in to a local target.

  The parts of the program and how they interact.
  \<^item> \<open>cmd/server\<close> and \<open>cmd/client\<close> load a configuration (\<open>pkg/config\<close>) and start an engine
    (theory \<open>Programs\<close>, on \<open>Config\<close>, \<open>Tls_Config\<close>, \<open>Client_Loop\<close>).
  \<^item> The server's engine (\<open>pkg/server/server.go\<close>): an accept loop behind a rate limiter
    (\<open>Rate_Limiter\<close>); one goroutine per control connection that authenticates the peer
    (\<open>Control_Auth\<close>), registers its session and starts a listener per port, with dynamic ports from
    a pool (\<open>Port_Alloc\<close>); one monitor per session that cleans up when it ends; one accept loop per
    listener and one handler per user connection (\<open>Server_Core\<close>, \<open>Server_Steps\<close>,
    \<open>Server_Lifecycle\<close>, \<open>Server_Faults\<close>, \<open>Server_Orderly\<close>).
    What the admission promises over a run of the engine is in \<open>Server_Admission\<close>, the types of its
    state in \<open>Server_Types\<close>.
  \<^item> The client's engine (\<open>pkg/client/client.go\<close>): the reconnect loop, stop, and the handling of
    a stream (\<open>Client_Loop\<close>, \<open>Forwarding\<close>).
  \<^item> The bytes of a forwarded connection: the port header and the copy loops of both ends
    (\<open>Forwarding\<close>), all loops of one connection interleaved with the datagram proxy that runs on the
    same stream (\<open>Forwarded_Flow\<close>, \<open>Forwarded_Connection\<close>), the datagram proxies of \<open>pkg/udp\<close>
    (\<open>Udp_Proxy\<close>), and the obfuscation layer under a control connection (\<open>Xor_Obfuscation\<close>).
  \<^item> The two engines together: one server and any number of clients, with the replies the network
    carries between them (\<open>Two_Programs\<close>).
  \<^item> The HTTP side (\<open>pkg/server/dashboard.go\<close> and the handlers of \<open>server.go\<close>): the handlers in
    \<open>Dashboard\<close>, the text of the two pages in \<open>Dashboard_Pages\<close>, how a URL brings a token to the server in
    \<open>Url_Query\<close>, and what the pages' scripts show in \<open>Dashboard_Scripts\<close>.
  \<^item> Packages that the two programs do not use: the framed handshake of \<open>pkg/protocol/auth.go\<close>
    (\<open>Auth_Protocol\<close>), the TLS builders of \<open>pkg/protocol/tls.go\<close> (\<open>Tls_Config\<close>), the junk exchange
    of \<open>pkg/obfuscate\<close> (\<open>Junk_Handshake\<close>), the framing and joining of \<open>pkg/tunnel\<close> (\<open>Udp_Framing\<close>,
    \<open>Pipe\<close>, \<open>Compressed_Pipe\<close>), the SOCKS5 proxy of \<open>pkg/client/socks5.go\<close> (\<open>Socks5\<close>),
    and \<open>pkg/notify\<close> and \<open>pkg/metrics\<close> (\<open>Observability\<close>).

  How state and operations correspond to the code. A struct is a record with the fields of the source
  (\<open>RateLimiter\<close>, \<open>ServerConfig\<close>, \<open>ClientConfig\<close>, \<open>ClientSession\<close>, \<open>Server\<close>, \<open>Client\<close>); a Go map
  is an association list; \<^verbatim>\<open>int\<close> is an unbounded integer with wrap-around written out where it
  can happen, and the atomic counters are 64- and 32-bit words. A function that can fail returns a sum
  or an option. A body that runs under a mutex is one function of the state. What runs concurrently
  is interleaved by a step relation: \<open>server_step\<close> has a rule for every section of the server's
  goroutines, which are themselves a part of the state, and \<open>client_step\<close> one for every place of
  the client's loop; \<open>act\<close> performs one section of a forwarded connection, and \<open>tunnel_step\<close> lets a server and clients take their
  steps in turn. Sessions and sockets that several goroutines share live in heaps. A connection (\<open>Conn\<close>) is the list of what its reads will return, cut in an arbitrary way, with the writes made.
  The standard library that the code computes with is in \<open>Go_Std\<close> (numbers, white space,
  hexadecimal, big-endian words), \<open>Json\<close> (decoding into a struct) and \<open>Sha256\<close> (SHA-256 and HMAC).
  \<open>Prelude\<close> has the shared types, automation and the locales of runs: \<open>simulation\<close>,
  \<open>step_invariant\<close> and \<open>ranking\<close>.

  What the lemmas show.
  \<^item> \<open>Rate_Limiter\<close>: every run refines a sliding-window log that forgets nothing, and so no
    window ever holds more calls than the limit. \<open>Server_Admission\<close>: what that gives for the server,
    whatever its other goroutines do.
  \<^item> \<open>Control_Auth\<close>, \<open>Auth_Protocol\<close>: exactly which bytes are accepted and as whom; soundness up to
    collisions of the MAC; and that the program's own client is always refused by the program's server,
    because the code is encoded twice. \<open>Two_Programs\<close>: so a server and its clients never get
    together in any interleaving, though a client can hold itself for authenticated.
  \<^item> \<open>Server_Steps\<close>, \<open>Server_Lifecycle\<close>: an invariant of the maps, sockets, goroutines and counters
    over every interleaving; internal work is bounded and comes to rest. \<open>Server_Orderly\<close>: under
    conditions on the clients the maps are exact and everything is given back. \<open>Server_Faults\<close>: what
    goes wrong without the conditions, each with a schedule that reaches it and what it leads to. \<open>Server_Types\<close>:
    every reference has its object, every port is one of the configuration, every alert has its shape.
  \<^item> \<open>Port_Alloc\<close>: the least free port of the range, distinct ports, and the endless search.
  \<^item> \<open>Forwarding\<close>, \<open>Udp_Framing\<close>, \<open>Udp_Proxy\<close>, \<open>Pipe\<close>, \<open>Xor_Obfuscation\<close>, \<open>Junk_Handshake\<close>: what
    arrives at the other end, for every segmentation of the stream. \<open>Compressed_Pipe\<close>: the same through
    any codec that keeps the promises of Snappy.
  \<^item> \<open>Forwarded_Connection\<close>: conservation of the bytes on both ways over every interleaving; what the
    datagram proxy does to them; and that the end of a connection is not passed on.
  \<^item> \<open>Client_Loop\<close>: one session at a time, what a stop does and when it is missed, and what the
    attempt counter counts.
  \<^item> \<open>Config\<close>, \<open>Tls_Config\<close>, \<open>Programs\<close>, \<open>Dashboard\<close>: loading and saving, the transports and
    their errors, how the programs end, access to the dashboard and what it reports.
    \<open>Dashboard_Scripts\<close>: which tokens survive the way through the browser, and that the pages show the
    state of the server for these tokens and nothing for others.

  Interfaces are locales, interpreted on the model in the theory that provides it: \<open>challenge_response\<close>
  and \<open>framed_challenge_response\<close> (both authentication schemes), \<open>port_pool\<close> (dynamic ports),
  \<open>stream_codec\<close> (datagram frames), \<open>simulation\<close> (the limiter), \<open>step_invariant\<close> (server, lost
  listeners, leaked ports, orderly runs, map keys, alerts, types, client, forwarded connection, the two programs
  together) and \<open>ranking\<close> (the server's internal steps, the client's loop after a stop).

  Bounds and fuel. No definition runs on fuel: loops are structural, have a termination proof, or are
  a partial function whose divergence is the value None (\<open>alloc_scan\<close>, the search for a dynamic port).
  \<open>tcp_to_udp\<close> and \<open>Pipe\<close> take the number of writes that succeed and the schedule as arguments; the
  theorems hold for all of them, and \<open>pipe_returns_and_relays\<close> says how long a schedule is enough.
  The schedules of the witnesses are finite command lists that \<open>execute\<close> runs.

  What is assumed of code outside the repository. The multiplexer delivers each stream as a connection
  in the sense of \<open>Conn\<close>, or an error; \<^verbatim>\<open>net.Listen\<close> succeeds only on a valid port on which the
  process does not listen yet (\<open>can_listen\<close>); \<^verbatim>\<open>Write\<close> on a UDP socket that is not connected
  fails; the clock of the limiter does not go back; key files and PEM texts are a parameter. Snappy is
  an argument of \<open>PipeWithCompress\<close> with the laws \<open>snappy_writer\<close> and \<open>snappy_reader\<close>. A browser treats
  addresses as the URL standard says and shows numbers and dates as it likes (\<open>js_env\<close>). In
  \<open>Two_Programs\<close> the network may delay, repeat and drop a reply, but neither cuts it nor makes one up.

  Not modelled. The multiplexer's frames and keep-alive, TLS records, ACME certificates, the HTTP
  transport, log output, formats of time stamps (a parameter), deadlines other than as read errors, the
  profiling handlers and the metric collectors of the libraries, and how a browser lays a page out.
  \<open>Forwarded_Flow\<close> is of a connection whose target accepts TCP; the fallback to datagrams is only in
  \<open>Forwarding\<close> and \<open>Udp_Proxy\<close>.
\<close>

end
